theory Spec2Isabelle
  imports Complex_Main
begin

section \<open>Data model\<close>

text \<open>
  The program (\<^verbatim>\<open>src/main.py\<close>) fetches two lists of transaction records, loads each
  into a pandas data frame, builds one undirected graph per list, draws it, and accumulates
  the native-currency values over time.

  Modelling decisions, fixed here once:
  \<^item> A Python float is the real number it denotes; non-finite floats are not represented.
    The division of a value by a power of ten is exact, and the two float-range failures
    of line 115 are kept as error branches. The sum and the running addition of the time
    series round, so they are parameters \<open>float_sum\<close> and \<open>float_add\<close>:
    the library's sum of a group of values, and the float64 addition. Theorems hold for
    every such pair unless they say otherwise; \<open>float64_add\<close> below is the addition
    rounded to the nearest float64, and \<open>float64_sum\<close> adds with it from zero.
  \<^item> The builtins \<^verbatim>\<open>float\<close> and \<^verbatim>\<open>int\<close> applied to a string are parameters
    \<open>py_float\<close> and \<open>py_int\<close> of every function that calls them; \<open>None\<close> is
    the \<^verbatim>\<open>ValueError\<close> of an unparseable string. Theorems hold for every such pair;
    closed examples use the decimal readers \<open>dec_float\<close> and \<open>dec_int\<close> below.
  \<^item> The layout routine \<^verbatim>\<open>nx.kamada_kawai_layout\<close> is library code: it is a parameter
    that gives every node a position.
  \<^item> \<^verbatim>\<open>print\<close> calls are not modelled.
\<close>

datatype py_error =
  KeyError | ValueError | OverflowError | ZeroDivisionError | RequestException
  | OutOfBoundsDatetime

text \<open>
  A cell of the \<^verbatim>\<open>tokenDecimal\<close> column: \<open>NaN\<close> where the record has no such key
  (pandas fills the gap with NaN), the JSON string as received, or the integer after
  \<^verbatim>\<open>astype(int)\<close>.
\<close>

datatype cell = NaN | Str string | IntV int

record tx =
  tx_from :: string
  tx_to :: string
  tx_value :: string
  timeStamp :: int
  tokenDecimal :: cell

text \<open>
  A data frame: its column labels and its rows. \<^verbatim>\<open>pd.DataFrame()\<close> and
  \<^verbatim>\<open>pd.DataFrame([])\<close> have neither.
\<close>

record frame =
  columns :: "string list"
  rows :: "tx list"

definition empty_frame :: frame where
  "empty_frame = \<lparr>columns = [], rows = []\<rparr>"

text \<open>
  \<^verbatim>\<open>pd.DataFrame(records)\<close>: the columns are the keys that occur in the records. Of
  the keys a ledger record has, only the five the program reads are kept; the first four
  are in every record, and \<^verbatim>\<open>timeStamp\<close> is taken as the number of seconds it
  denotes.
\<close>

definition DataFrame :: "tx list \<Rightarrow> frame" where
  "DataFrame rs =
     (if rs = [] then empty_frame
      else \<lparr>columns = [''from'', ''to'', ''value'', ''timeStamp'']
                @ (if \<exists>r \<in> set rs. tokenDecimal r \<noteq> NaN then [''tokenDecimal''] else []),
            rows = rs\<rparr>)"

text \<open>\<^verbatim>\<open>df.empty\<close>: some axis has length zero.\<close>

definition df_empty :: "frame \<Rightarrow> bool" where
  "df_empty f \<longleftrightarrow> columns f = [] \<or> rows f = []"

section \<open>Decimal readers for closed examples\<close>

text \<open>The value of an ASCII digit, from its code.\<close>

definition digit_val :: "char \<Rightarrow> nat option" where
  "digit_val c =
     (let n = (of_char c :: nat) in if 48 \<le> n \<and> n \<le> 57 then Some (n - 48) else None)"

fun dec_nat_acc :: "nat \<Rightarrow> string \<Rightarrow> nat option" where
  "dec_nat_acc n [] = Some n"
| "dec_nat_acc n (c # cs) =
     (case digit_val c of None \<Rightarrow> None | Some d \<Rightarrow> dec_nat_acc (10 * n + d) cs)"

definition dec_nat :: "string \<Rightarrow> nat option" where
  "dec_nat s = (if s = [] then None else dec_nat_acc 0 s)"

text \<open>
  A plain decimal literal with an optional minus sign; on these strings Python's
  \<^verbatim>\<open>int\<close> and \<^verbatim>\<open>float\<close> return the same number.
\<close>

definition dec_int :: "string \<Rightarrow> int option" where
  "dec_int s =
     (case s of
        [] \<Rightarrow> None
      | c # cs \<Rightarrow> if c = CHR ''-'' then map_option (\<lambda>n. - int n) (dec_nat cs)
                  else map_option int (dec_nat s))"

definition dec_float :: "string \<Rightarrow> real option" where
  "dec_float s = map_option real_of_int (dec_int s)"

section \<open>The graph: \<^verbatim>\<open>nx.Graph\<close>\<close>

text \<open>
  networkx keeps an undirected graph as a dict of dicts, \<^verbatim>\<open>_adj[u][v]\<close> being the
  attribute dict of the edge. Python dicts keep insertion order, and the order is what
  \<^verbatim>\<open>G.nodes()\<close> and \<^verbatim>\<open>G.edges()\<close> iterate in, so both levels are association lists.
  The only attribute is \<^verbatim>\<open>weight\<close>.
\<close>

type_synonym nbrs = "(string \<times> real) list"
type_synonym graph = "(string \<times> nbrs) list"

text \<open>\<^verbatim>\<open>d[k] = v\<close>: an existing key keeps its place, a new key goes last.\<close>

fun dict_set :: "'k \<Rightarrow> 'v \<Rightarrow> ('k \<times> 'v) list \<Rightarrow> ('k \<times> 'v) list" where
  "dict_set k v [] = [(k, v)]"
| "dict_set k v ((k', v') # d) =
     (if k' = k then (k, v) # d else (k', v') # dict_set k v d)"

text \<open>\<^verbatim>\<open>_adj[u][v] = datadict\<close> for a node \<open>u\<close> of the graph.\<close>

fun set_nbr :: "string \<Rightarrow> string \<Rightarrow> real \<Rightarrow> graph \<Rightarrow> graph" where
  "set_nbr u v w [] = []"
| "set_nbr u v w ((n, d) # G) =
     (if n = u then (n, dict_set v w d) # G else (n, d) # set_nbr u v w G)"

text \<open>\<^verbatim>\<open>if u not in self._node: self._adj[u] = {}\<close>\<close>

definition add_node :: "string \<Rightarrow> graph \<Rightarrow> graph" where
  "add_node u G = (if u \<in> fst ` set G then G else G @ [(u, [])])"

text \<open>
  \<^verbatim>\<open>G.add_edge(u, v, weight=w)\<close>: both nodes are added when new, the attribute dict of
  the edge is updated with the weight, and stored under both directions.
\<close>

definition add_edge :: "string \<Rightarrow> string \<Rightarrow> real \<Rightarrow> graph \<Rightarrow> graph" where
  "add_edge u v w G = set_nbr v u w (set_nbr u v w (add_node v (add_node u G)))"

text \<open>\<^verbatim>\<open>G.nodes()\<close>\<close>

definition nodes :: "graph \<Rightarrow> string list" where
  "nodes G = map fst G"

text \<open>
  \<^verbatim>\<open>G.edges(data=True)\<close>: for each node in order, each neighbour that has not itself
  been visited as a node; so every edge is reported once, a self-loop included.
\<close>

fun edges_from :: "string list \<Rightarrow> graph \<Rightarrow> (string \<times> string \<times> real) list" where
  "edges_from seen [] = []"
| "edges_from seen ((n, d) # G) =
     map (\<lambda>(v, w). (n, v, w)) (filter (\<lambda>(v, w). v \<notin> set seen) d) @ edges_from (n # seen) G"

definition edges :: "graph \<Rightarrow> (string \<times> string \<times> real) list" where
  "edges G = edges_from [] G"

text \<open>\<^verbatim>\<open>G[u][v]['weight']\<close>, \<open>None\<close> where the lookup raises.\<close>

definition edge_weight :: "graph \<Rightarrow> string \<Rightarrow> string \<Rightarrow> real option" where
  "edge_weight G u v = (case map_of G u of None \<Rightarrow> None | Some d \<Rightarrow> map_of d v)"

text \<open>
  \<^verbatim>\<open>nx.degree(G, node)\<close> on the neighbour dict of the node:
  \<^verbatim>\<open>len(nbrs) + (n in nbrs)\<close>, a self-loop counting twice.
\<close>

definition degree_of :: "string \<Rightarrow> nbrs \<Rightarrow> nat" where
  "degree_of n d = length d + (if n \<in> fst ` set d then 1 else 0)"

section \<open>\<^verbatim>\<open>create_network_graph\<close>\<close>

text \<open>\<^verbatim>\<open>int(tx['tokenDecimal'])\<close> on a cell.\<close>

definition cell_int :: "(string \<Rightarrow> int option) \<Rightarrow> cell \<Rightarrow> py_error + int" where
  "cell_int py_int c =
     (case c of
        NaN \<Rightarrow> Inl ValueError
      | IntV i \<Rightarrow> Inr i
      | Str s \<Rightarrow> (case py_int s of None \<Rightarrow> Inl ValueError | Some i \<Rightarrow> Inr i))"

text \<open>
  Line 115, the converted value of one row. The left operand is evaluated first. An
  integer \<^verbatim>\<open>10 ** d\<close> above the float range cannot be converted for the division
  (from \<open>d = 309\<close>), and a negative exponent gives the float \<^verbatim>\<open>10 ** d\<close>, which is
  zero from \<open>d = -324\<close> downwards.
\<close>

definition value_major ::
  "(string \<Rightarrow> real option) \<Rightarrow> (string \<Rightarrow> int option) \<Rightarrow> string list \<Rightarrow> bool \<Rightarrow> tx
     \<Rightarrow> py_error + real" where
  "value_major py_float py_int cols token t =
     (if ''value'' \<notin> set cols then Inl KeyError
      else case py_float (tx_value t) of
        None \<Rightarrow> Inl ValueError
      | Some x \<Rightarrow>
          if token then
            (if ''tokenDecimal'' \<notin> set cols then Inl KeyError
             else case cell_int py_int (tokenDecimal t) of
               Inl e \<Rightarrow> Inl e
             | Inr d \<Rightarrow>
                 if 309 \<le> d then Inl OverflowError
                 else if d \<le> - 324 then Inl ZeroDivisionError
                 else if 0 \<le> d then Inr (x / 10 ^ nat d)
                 else Inr (x / (1 / 10 ^ nat (- d))))
          else Inr (x / 10 ^ 18))"

text \<open>The loop of lines 114 to 119, the graph being the state.\<close>

fun add_rows ::
  "(string \<Rightarrow> real option) \<Rightarrow> (string \<Rightarrow> int option) \<Rightarrow> string list \<Rightarrow> bool
     \<Rightarrow> graph \<Rightarrow> tx list \<Rightarrow> py_error + graph" where
  "add_rows py_float py_int cols token G [] = Inr G"
| "add_rows py_float py_int cols token G (t # ts) =
     (case value_major py_float py_int cols token t of
        Inl e \<Rightarrow> Inl e
      | Inr v \<Rightarrow>
          if 0 < v then
            (if ''from'' \<notin> set cols \<or> ''to'' \<notin> set cols then Inl KeyError
             else add_rows py_float py_int cols token (add_edge (tx_from t) (tx_to t) v G) ts)
          else add_rows py_float py_int cols token G ts)"

definition create_network_graph ::
  "(string \<Rightarrow> real option) \<Rightarrow> (string \<Rightarrow> int option) \<Rightarrow> frame \<Rightarrow> bool
     \<Rightarrow> py_error + graph" where
  "create_network_graph py_float py_int transactions token =
     add_rows py_float py_int (columns transactions) token [] (rows transactions)"

section \<open>\<^verbatim>\<open>fetch_transactions\<close>\<close>

text \<open>
  The two HTTP requests are the environment. A request either raises or returns a status
  code and a body; the body is \<open>None\<close> when it is not a JSON object, and otherwise
  its \<^verbatim>\<open>result\<close> entry is absent, a message string (the ledger API reports errors
  so), or a list of records.
\<close>

datatype json_result = Result_absent | Result_message string | Result_records "tx list"

datatype response = Request_failed | Response int "json_result option"

text \<open>
  \<^verbatim>\<open>pd.DataFrame(response.json().get('result', []))\<close>; the constructor rejects a
  string.
\<close>

definition load_result :: "json_result option \<Rightarrow> py_error + frame" where
  "load_result j =
     (case j of
        None \<Rightarrow> Inl ValueError
      | Some Result_absent \<Rightarrow> Inr (DataFrame [])
      | Some (Result_message s) \<Rightarrow> Inl ValueError
      | Some (Result_records rs) \<Rightarrow> Inr (DataFrame rs))"

text \<open>
  \<^verbatim>\<open>.astype(int)\<close> on the column: every cell goes through \<^verbatim>\<open>int\<close>, and the
  result must fit 64 bits.
\<close>

fun astype_int :: "(string \<Rightarrow> int option) \<Rightarrow> tx list \<Rightarrow> py_error + tx list" where
  "astype_int py_int [] = Inr []"
| "astype_int py_int (r # rs) =
     (case cell_int py_int (tokenDecimal r) of
        Inl e \<Rightarrow> Inl e
      | Inr i \<Rightarrow>
          if i < - (2 ^ 63) \<or> 2 ^ 63 \<le> i then Inl OverflowError
          else (case astype_int py_int rs of
                  Inl e \<Rightarrow> Inl e
                | Inr rs' \<Rightarrow> Inr (r\<lparr>tokenDecimal := IntV i\<rparr> # rs')))"

text \<open>Line 100.\<close>

definition convert_tokenDecimal :: "(string \<Rightarrow> int option) \<Rightarrow> frame \<Rightarrow> py_error + frame" where
  "convert_tokenDecimal py_int f =
     (if ''tokenDecimal'' \<notin> set (columns f) then Inl KeyError
      else case astype_int py_int (rows f) of
        Inl e \<Rightarrow> Inl e
      | Inr rs \<Rightarrow> Inr (f\<lparr>rows := rs\<rparr>))"

text \<open>
  Lines 88 to 110. Whatever is raised inside the \<^verbatim>\<open>try\<close> block reaches the one
  handler, which assigns the empty frame to both results.
\<close>

definition fetch_transactions ::
  "(string \<Rightarrow> int option) \<Rightarrow> response \<Rightarrow> response \<Rightarrow> frame \<times> frame" where
  "fetch_transactions py_int eth_response erc20_response =
     (case (case eth_response of
              Request_failed \<Rightarrow> Inl RequestException
            | Response status_code j \<Rightarrow>
                if status_code = 200 then load_result j else Inr empty_frame) of
        Inl e \<Rightarrow> (empty_frame, empty_frame)
      | Inr eth_transactions \<Rightarrow>
          (case (case erc20_response of
                   Request_failed \<Rightarrow> Inl RequestException
                 | Response status_code j \<Rightarrow>
                     if status_code = 200 then
                       (case load_result j of
                          Inl e \<Rightarrow> Inl e
                        | Inr f \<Rightarrow> convert_tokenDecimal py_int f)
                     else Inr empty_frame) of
             Inl e \<Rightarrow> (empty_frame, empty_frame)
           | Inr erc20_transactions \<Rightarrow> (eth_transactions, erc20_transactions)))"

section \<open>\<^verbatim>\<open>draw_plotly_graph\<close>\<close>

record annotation =
  ann_x :: real
  ann_y :: real
  ann_weight :: real
  ann_unit :: string

text \<open>
  The parts of the figure that depend on the graph. The annotation text is the weight
  printed with four decimals and the unit; the record keeps the two apart.
\<close>

record figure =
  edge_x :: "real option list"
  edge_y :: "real option list"
  edge_annotations :: "annotation list"
  node_x :: "real list"
  node_y :: "real list"
  node_text :: "string list"
  node_sizes :: "real list"

definition max_size :: real where "max_size = 25"
definition base_size :: real where "base_size = 10"
definition center_size :: real where "center_size = 15"

text \<open>Lines 165 to 170, for a node and its neighbour dict.\<close>

definition node_size :: "string option \<Rightarrow> string \<Rightarrow> nbrs \<Rightarrow> real" where
  "node_size center_node node d =
     (if Some node = center_node then center_size
      else min (base_size + ln (real (degree_of node d) + 1)) max_size)"

definition draw_plotly_graph ::
  "(graph \<Rightarrow> string \<Rightarrow> real \<times> real) \<Rightarrow> graph \<Rightarrow> bool \<Rightarrow> string option \<Rightarrow> figure" where
  "draw_plotly_graph kamada_kawai_layout G is_token center_node =
     (let pos = kamada_kawai_layout G in
      \<lparr>edge_x = concat (map (\<lambda>(u, v, w). [Some (fst (pos u)), Some (fst (pos v)), None])
                  (edges G)),
       edge_y = concat (map (\<lambda>(u, v, w). [Some (snd (pos u)), Some (snd (pos v)), None])
                  (edges G)),
       edge_annotations =
         map (\<lambda>(u, v, w).
               \<lparr>ann_x = (fst (pos u) + fst (pos v)) / 2,
                ann_y = (snd (pos u) + snd (pos v)) / 2,
                ann_weight = w,
                ann_unit = (if \<not> is_token then ''ETH'' else ''TOKENS'')\<rparr>) (edges G),
       node_x = map (\<lambda>(n, d). fst (pos n)) G,
       node_y = map (\<lambda>(n, d). snd (pos n)) G,
       node_text = nodes G,
       node_sizes = map (\<lambda>(n, d). node_size center_node n d) G\<rparr>)"

section \<open>The time series of \<^verbatim>\<open>update_graphs\<close>\<close>

text \<open>\<^verbatim>\<open>.astype(float)\<close> on the value column.\<close>

fun astype_float :: "(string \<Rightarrow> real option) \<Rightarrow> string list \<Rightarrow> py_error + real list" where
  "astype_float py_float [] = Inr []"
| "astype_float py_float (s # ss) =
     (case py_float s of
        None \<Rightarrow> Inl ValueError
      | Some x \<Rightarrow> (case astype_float py_float ss of
                    Inl e \<Rightarrow> Inl e
                  | Inr xs \<Rightarrow> Inr (x # xs)))"

text \<open>
  Line 64, \<^verbatim>\<open>pd.to_datetime(..., unit='s')\<close>: a calendar time is a 64-bit count of
  nanoseconds, so a number of seconds beyond 9223372036 in either direction raises.
  Within the range the calendar time is written as the number of seconds, which keeps
  equality and order.
\<close>

definition to_datetime :: "int \<Rightarrow> py_error + int" where
  "to_datetime t =
     (if - 9223372036 \<le> t \<and> t \<le> 9223372036 then Inr t else Inl OutOfBoundsDatetime)"

fun to_datetime_col :: "int list \<Rightarrow> py_error + int list" where
  "to_datetime_col [] = Inr []"
| "to_datetime_col (t # ts) =
     (case to_datetime t of
        Inl e \<Rightarrow> Inl e
      | Inr d \<Rightarrow> (case to_datetime_col ts of
                    Inl e \<Rightarrow> Inl e
                  | Inr ds \<Rightarrow> Inr (d # ds)))"

text \<open>
  \<^verbatim>\<open>groupby('time')['value']\<close>: the rows are read in order, each value joins the end
  of the group of its key, and the keys are kept in ascending order.
\<close>

fun group_add :: "int \<Rightarrow> real \<Rightarrow> (int \<times> real list) list \<Rightarrow> (int \<times> real list) list" where
  "group_add t v [] = [(t, [v])]"
| "group_add t v ((t', vs) # gs) =
     (if t = t' then (t', vs @ [v]) # gs
      else if t < t' then (t, [v]) # (t', vs) # gs
      else (t', vs) # group_add t v gs)"

fun groups_from :: "(int \<times> real list) list \<Rightarrow> (int \<times> real) list \<Rightarrow> (int \<times> real list) list" where
  "groups_from gs [] = gs"
| "groups_from gs ((t, v) # pts) = groups_from (group_add t v gs) pts"

definition groupby :: "(int \<times> real) list \<Rightarrow> (int \<times> real list) list" where
  "groupby pts = groups_from [] pts"

text \<open>
  \<^verbatim>\<open>.sum()\<close> on the groups. \<open>float_sum\<close> stands for all that lies between
  the exact quotients of line 66 and the sum of a group: the rounding of each quotient to
  a float, and the library's float summation.
\<close>

definition groupby_sum :: "(real list \<Rightarrow> real) \<Rightarrow> (int \<times> real) list \<Rightarrow> (int \<times> real) list" where
  "groupby_sum float_sum pts = map (\<lambda>(t, vs). (t, float_sum vs)) (groupby pts)"

text \<open>
  \<^verbatim>\<open>.cumsum()\<close>: the first entry is kept, and each later entry is the float addition
  of the entry before it and the value.
\<close>

fun cumsum_from ::
  "(real \<Rightarrow> real \<Rightarrow> real) \<Rightarrow> real \<Rightarrow> (int \<times> real) list \<Rightarrow> (int \<times> real) list" where
  "cumsum_from float_add acc [] = []"
| "cumsum_from float_add acc ((t, s) # gs) =
     (t, float_add acc s) # cumsum_from float_add (float_add acc s) gs"

fun cumsum :: "(real \<Rightarrow> real \<Rightarrow> real) \<Rightarrow> (int \<times> real) list \<Rightarrow> (int \<times> real) list" where
  "cumsum float_add [] = []"
| "cumsum float_add ((t, s) # gs) = (t, s) # cumsum_from float_add s gs"

text \<open>Lines 64 to 67, up to the sum per group; line 64 runs before line 66.\<close>

definition group_sums ::
  "(string \<Rightarrow> real option) \<Rightarrow> (real list \<Rightarrow> real) \<Rightarrow> frame
     \<Rightarrow> py_error + (int \<times> real) list" where
  "group_sums py_float float_sum transactions =
     (if ''timeStamp'' \<notin> set (columns transactions) then Inl KeyError
      else case to_datetime_col (map timeStamp (rows transactions)) of
        Inl e \<Rightarrow> Inl e
      | Inr time \<Rightarrow>
          if ''value'' \<notin> set (columns transactions) then Inl KeyError
          else case astype_float py_float (map tx_value (rows transactions)) of
            Inl e \<Rightarrow> Inl e
          | Inr xs \<Rightarrow>
              Inr (groupby_sum float_sum (zip time (map (\<lambda>x. x / 10 ^ 18) xs))))"

definition time_series ::
  "(string \<Rightarrow> real option) \<Rightarrow> (real list \<Rightarrow> real) \<Rightarrow> (real \<Rightarrow> real \<Rightarrow> real) \<Rightarrow> frame
     \<Rightarrow> py_error + (int \<times> real) list" where
  "time_series py_float float_sum float_add transactions =
     (case group_sums py_float float_sum transactions of
        Inl e \<Rightarrow> Inl e
      | Inr gs \<Rightarrow> Inr (cumsum float_add gs))"

section \<open>\<^verbatim>\<open>update_graphs\<close>\<close>

text \<open>
  What the callback hands to the display: a \<^verbatim>\<open>html.Div\<close> with its text, a
  \<^verbatim>\<open>dcc.Graph\<close> of a network figure, or a \<^verbatim>\<open>dcc.Graph\<close> of the time series.
\<close>

datatype component = Div string | Graph figure | Graph_series "(int \<times> real) list"

text \<open>\<^verbatim>\<open>df[df['value'] != '0']\<close>, a comparison of strings.\<close>

definition hide_zero_rows :: "frame \<Rightarrow> py_error + frame" where
  "hide_zero_rows f =
     (if ''value'' \<notin> set (columns f) then Inl KeyError
      else Inr (f\<lparr>rows := filter (\<lambda>r. tx_value r \<noteq> ''0'') (rows f)\<rparr>))"

text \<open>
  Lines 52 to 55 and 57 to 61: the container of one graph.
\<close>

definition graph_div ::
  "(string \<Rightarrow> real option) \<Rightarrow> (string \<Rightarrow> int option) \<Rightarrow> (graph \<Rightarrow> string \<Rightarrow> real \<times> real)
     \<Rightarrow> frame \<Rightarrow> bool \<Rightarrow> string \<Rightarrow> string \<Rightarrow> py_error + component" where
  "graph_div py_float py_int kamada_kawai_layout transactions token address no_data =
     (if df_empty transactions then Inr (Div no_data)
      else case create_network_graph py_float py_int transactions token of
        Inl e \<Rightarrow> Inl e
      | Inr G \<Rightarrow> Inr (Graph (draw_plotly_graph kamada_kawai_layout G token (Some address))))"

text \<open>
  The callback. The result is the tuple it returns, as a list, or the exception that
  leaves it.
\<close>

definition update_graphs ::
  "(string \<Rightarrow> real option) \<Rightarrow> (string \<Rightarrow> int option)
     \<Rightarrow> (real list \<Rightarrow> real) \<Rightarrow> (real \<Rightarrow> real \<Rightarrow> real)
     \<Rightarrow> (graph \<Rightarrow> string \<Rightarrow> real \<times> real)
     \<Rightarrow> int \<Rightarrow> string \<Rightarrow> string list \<Rightarrow> response \<Rightarrow> response
     \<Rightarrow> py_error + component list" where
  "update_graphs py_float py_int float_sum float_add kamada_kawai_layout n_clicks address
       hide_zero eth_response erc20_response =
     (if 0 < n_clicks then
        (case fetch_transactions py_int eth_response erc20_response of
           (fetched, erc20_fetched) \<Rightarrow>
             (case (if ''hide'' \<in> set hide_zero then
                      (case hide_zero_rows fetched of
                         Inl e \<Rightarrow> Inl e
                       | Inr t \<Rightarrow> (case hide_zero_rows erc20_fetched of
                                     Inl e \<Rightarrow> Inl e
                                   | Inr t20 \<Rightarrow> Inr (t, t20)))
                    else Inr (fetched, erc20_fetched)) of
                Inl e \<Rightarrow> Inl e
              | Inr (transactions, erc20_transactions) \<Rightarrow>
                  if df_empty transactions \<and> df_empty erc20_transactions then
                    Inr [Div ''No data available for Ethereum transactions'',
                         Div ''No data available for ERC20 transactions'']
                  else
                    (case graph_div py_float py_int kamada_kawai_layout transactions False
                            address ''No data available for Ethereum transactions'' of
                       Inl e \<Rightarrow> Inl e
                     | Inr eth_graph_div \<Rightarrow>
                         (case graph_div py_float py_int kamada_kawai_layout
                                 erc20_transactions True address
                                 ''No data available for ERC20 transactions'' of
                            Inl e \<Rightarrow> Inl e
                          | Inr erc20_graph_div \<Rightarrow>
                              (case time_series py_float float_sum float_add transactions of
                                 Inl e \<Rightarrow> Inl e
                               | Inr time_series_data \<Rightarrow>
                                   Inr [eth_graph_div, erc20_graph_div,
                                        Graph_series time_series_data])))))
      else Inr [Div [], Div [], Div []])"

section \<open>Notions used in the statements\<close>

text \<open>A row between the two addresses, in either direction.\<close>

definition joins :: "string \<Rightarrow> string \<Rightarrow> tx \<Rightarrow> bool" where
  "joins a b t \<longleftrightarrow> (tx_from t = a \<and> tx_to t = b) \<or> (tx_from t = b \<and> tx_to t = a)"

text \<open>An entry of the edge list between the two addresses, in either direction.\<close>

definition same_pair :: "string \<Rightarrow> string \<Rightarrow> string \<times> string \<times> real \<Rightarrow> bool" where
  "same_pair a b e = (case e of (u, v, w) \<Rightarrow> (u = a \<and> v = b) \<or> (u = b \<and> v = a))"

text \<open>
  The invariant of the adjacency structure: keys occur once at both levels, no node is
  without a neighbour, both directions of an edge carry the same weight, and weights are
  positive.
\<close>

definition wf_graph :: "graph \<Rightarrow> bool" where
  "wf_graph G \<longleftrightarrow>
     distinct (map fst G)
     \<and> (\<forall>n d. map_of G n = Some d \<longrightarrow> distinct (map fst d) \<and> d \<noteq> [])
     \<and> (\<forall>u v. edge_weight G u v = edge_weight G v u)
     \<and> (\<forall>u v w. edge_weight G u v = Some w \<longrightarrow> 0 < w)"

text \<open>
  The time series as the specification words it: group by exact timestamp, sum the values
  of each group, and accumulate the sums in ascending order of time. The sum of a group
  and the addition of the running sum are the float operations of the program.
\<close>

definition values_at :: "(int \<times> real) list \<Rightarrow> int \<Rightarrow> real list" where
  "values_at pts t = map snd (filter (\<lambda>p. fst p = t) pts)"

definition spec_group_sums :: "(real list \<Rightarrow> real) \<Rightarrow> (int \<times> real) list \<Rightarrow> (int \<times> real) list" where
  "spec_group_sums float_sum pts =
     map (\<lambda>t. (t, float_sum (values_at pts t))) (sorted_list_of_set (fst ` set pts))"

definition spec_cumulative :: "(real \<Rightarrow> real \<Rightarrow> real) \<Rightarrow> (int \<times> real) list \<Rightarrow> (int \<times> real) list" where
  "spec_cumulative float_add gs =
     map (\<lambda>i. (fst (gs ! i), foldl float_add (snd (hd gs)) (map snd (take i (tl gs)))))
       [0..<length gs]"

definition spec_time_series ::
  "(real list \<Rightarrow> real) \<Rightarrow> (real \<Rightarrow> real \<Rightarrow> real) \<Rightarrow> (int \<times> real) list \<Rightarrow> (int \<times> real) list" where
  "spec_time_series float_sum float_add pts =
     spec_cumulative float_add (spec_group_sums float_sum pts)"

text \<open>
  Lines 45 to 47: the frames the callback works on, after the zero-value filter when it
  is on.
\<close>

definition shown_frames :: "string list \<Rightarrow> frame \<times> frame \<Rightarrow> py_error + frame \<times> frame" where
  "shown_frames hide_zero fetched =
     (case fetched of
        (transactions, erc20_transactions) \<Rightarrow>
          if ''hide'' \<in> set hide_zero then
            (case hide_zero_rows transactions of
               Inl e \<Rightarrow> Inl e
             | Inr t \<Rightarrow> (case hide_zero_rows erc20_transactions of
                           Inl e \<Rightarrow> Inl e
                         | Inr t20 \<Rightarrow> Inr (t, t20)))
          else Inr (transactions, erc20_transactions))"

section \<open>Float64 addition\<close>

text \<open>
  Rounding to the nearest float64, ties to the even significand: 53 significant bits,
  least exponent -1022, so that the numbers below \<open>2 powr (-1022)\<close> are multiples of
  \<open>2 powr (-1074)\<close>. The exponent is not bounded above: overflow to infinity is not
  represented.
\<close>

definition round_half_even :: "real \<Rightarrow> int" where
  "round_half_even y =
     (let f = \<lfloor>y\<rfloor>; d = y - of_int f
      in if d < 1 / 2 then f else if 1 / 2 < d then f + 1 else if even f then f else f + 1)"

definition float64_exponent :: "real \<Rightarrow> int" where
  "float64_exponent x = max \<lfloor>log 2 \<bar>x\<bar>\<rfloor> (- 1022)"

definition float64_ulp :: "real \<Rightarrow> real" where
  "float64_ulp x = 2 powr (of_int (float64_exponent x) - 52)"

definition float64_round :: "real \<Rightarrow> real" where
  "float64_round x =
     (if x = 0 then 0 else float64_ulp x * of_int (round_half_even (x / float64_ulp x)))"

definition float64_add :: "real \<Rightarrow> real \<Rightarrow> real" where
  "float64_add a b = float64_round (a + b)"

text \<open>
  A float sum for closed examples: the values are added in order from zero, each addition
  rounded. A group of one value gets that value rounded, as line 66 rounds it; in the
  other groups of the examples every value and partial sum is a float64 number, so any
  order and any compensation give the same sum.
\<close>

definition float64_sum :: "real list \<Rightarrow> real" where
  "float64_sum vs = foldl float64_add 0 vs"

text \<open>Records and a layout for closed examples.\<close>

definition mk_tx :: "string \<Rightarrow> string \<Rightarrow> string \<Rightarrow> int \<Rightarrow> tx" where
  "mk_tx a b v ts =
     \<lparr>tx_from = a, tx_to = b, tx_value = v, timeStamp = ts, tokenDecimal = NaN\<rparr>"

definition mk_token_tx :: "string \<Rightarrow> string \<Rightarrow> string \<Rightarrow> int \<Rightarrow> string \<Rightarrow> tx" where
  "mk_token_tx a b v ts dec =
     \<lparr>tx_from = a, tx_to = b, tx_value = v, timeStamp = ts, tokenDecimal = Str dec\<rparr>"

definition origin_layout :: "graph \<Rightarrow> string \<Rightarrow> real \<times> real" where
  "origin_layout G n = (0, 0)"

definition empty_figure :: figure where
  "empty_figure =
     \<lparr>edge_x = [], edge_y = [], edge_annotations = [], node_x = [], node_y = [],
      node_text = [], node_sizes = []\<rparr>"

section \<open>Association lists and the adjacency structure\<close>


lemma dict_set_keys: "fst ` set (dict_set k v d) = insert k (fst ` set d)"
  by (induction d) force+

lemma dict_set_distinct: "distinct (map fst d) \<Longrightarrow> distinct (map fst (dict_set k v d))"
  by (induction d) (auto simp: dict_set_keys)

lemma dict_set_map_of: "map_of (dict_set k v d) = (map_of d)(k \<mapsto> v)"
  by (induction d) auto

lemma dict_set_nonempty: "dict_set k v d \<noteq> []"
  by (cases d) (auto split: if_splits)

lemma set_nbr_keys: "map fst (set_nbr u v w G) = map fst G"
  by (induction G) auto

lemma set_nbr_map_of:
  "map_of (set_nbr u v w G) =
     (case map_of G u of None \<Rightarrow> map_of G | Some d \<Rightarrow> (map_of G)(u \<mapsto> dict_set v w d))"
  by (induction G) (auto split: option.splits)

lemma add_node_keys: "fst ` set (add_node u G) = insert u (fst ` set G)"
  by (auto simp: add_node_def)

lemma add_node_distinct: "distinct (map fst G) \<Longrightarrow> distinct (map fst (add_node u G))"
  by (auto simp: add_node_def)

lemma in_keys_iff: "u \<in> fst ` set G \<longleftrightarrow> map_of G u \<noteq> None"
  by (simp add: map_of_eq_None_iff)

lemma add_node_map_of:
  "map_of (add_node u G) =
     (case map_of G u of None \<Rightarrow> (map_of G)(u \<mapsto> []) | Some d \<Rightarrow> map_of G)"
proof (cases "map_of G u")
  case None
  then have "u \<notin> fst ` set G" by (simp add: map_of_eq_None_iff)
  then show ?thesis using None
    by (auto simp: add_node_def fun_eq_iff map_add_def split: option.splits)
next
  case (Some d)
  then have "u \<in> fst ` set G" by (simp add: in_keys_iff)
  then show ?thesis using Some by (simp add: add_node_def)
qed

lemma add_edge_keys: "fst ` set (add_edge u v w G) = insert u (insert v (fst ` set G))"
  unfolding add_edge_def
  by (metis add_node_keys set_nbr_keys insert_commute list.set_map)

lemma add_edge_distinct: "distinct (map fst G) \<Longrightarrow> distinct (map fst (add_edge u v w G))"
  unfolding add_edge_def by (simp add: set_nbr_keys add_node_distinct)

lemma add_edge_map_of:
  "map_of (add_edge u v w G) n =
     (if n = u \<or> n = v then
        Some (let d0 = (case map_of G n of None \<Rightarrow> [] | Some d \<Rightarrow> d);
                  d1 = (if n = u then dict_set v w d0 else d0)
              in if n = v then dict_set u w d1 else d1)
      else map_of G n)"
  unfolding add_edge_def
  by (auto simp: set_nbr_map_of add_node_map_of Let_def split: option.splits)

lemma add_edge_weight:
  "edge_weight (add_edge u v w G) a b =
     (if (a = u \<and> b = v) \<or> (a = v \<and> b = u) then Some w else edge_weight G a b)"
  unfolding edge_weight_def
  by (auto simp: add_edge_map_of dict_set_map_of Let_def split: option.splits)


lemma wf_graph_Nil: "wf_graph []"
  by (simp add: wf_graph_def edge_weight_def)

lemma wf_graph_add_edge:
  assumes "wf_graph G" and "0 < w"
  shows "wf_graph (add_edge u v w G)"
proof -
  have 1: "distinct (map fst (add_edge u v w G))"
    using assms(1) by (simp add: wf_graph_def add_edge_distinct)
  have 2: "distinct (map fst d) \<and> d \<noteq> []" if "map_of (add_edge u v w G) n = Some d" for n d
  proof (cases "n = u \<or> n = v")
    case False
    then show ?thesis using that assms(1) by (simp add: add_edge_map_of wf_graph_def)
  next
    case True
    define d0 where "d0 = (case map_of G n of None \<Rightarrow> [] | Some d \<Rightarrow> d)"
    have "distinct (map fst d0)"
      using assms(1) by (auto simp: d0_def wf_graph_def split: option.splits)
    then show ?thesis using that True
      by (auto simp: add_edge_map_of Let_def d0_def[symmetric] dict_set_distinct
          dict_set_nonempty split: if_splits)
  qed
  have 3: "edge_weight (add_edge u v w G) a b = edge_weight (add_edge u v w G) b a" for a b
    using assms(1) by (auto simp: add_edge_weight wf_graph_def)
  have 4: "0 < w'" if "edge_weight (add_edge u v w G) a b = Some w'" for a b w'
    using that assms by (auto simp: add_edge_weight wf_graph_def split: if_splits)
  show ?thesis unfolding wf_graph_def using 1 2 3 4 by blast
qed

lemma add_rows_append:
  "add_rows pf pn cols token G (xs @ ys) =
     (case add_rows pf pn cols token G xs of
        Inl e \<Rightarrow> Inl e
      | Inr G1 \<Rightarrow> add_rows pf pn cols token G1 ys)"
  by (induction xs arbitrary: G) (auto split: sum.splits)

lemma add_rows_wf:
  "add_rows pf pn cols token G ts = Inr G' \<Longrightarrow> wf_graph G \<Longrightarrow> wf_graph G'"
proof (induction ts arbitrary: G)
  case Nil
  then show ?case by simp
next
  case (Cons t ts)
  then show ?case
    by (auto split: sum.splits if_splits intro: wf_graph_add_edge)
qed

lemma add_rows_untouched:
  assumes "add_rows pf pn cols token G ts = Inr G'"
    and "\<forall>s \<in> set ts. joins a b s \<longrightarrow> (\<forall>v. value_major pf pn cols token s = Inr v \<longrightarrow> v \<le> 0)"
  shows "edge_weight G' a b = edge_weight G a b"
  using assms
proof (induction ts arbitrary: G)
  case Nil
  then show ?case by simp
next
  case (Cons t ts)
  show ?case
  proof (cases "value_major pf pn cols token t")
    case (Inl e)
    with Cons.prems show ?thesis by simp
  next
    case (Inr v)
    show ?thesis
    proof (cases "0 < v")
      case False
      with Inr Cons.prems Cons.IH[of G] show ?thesis by simp
    next
      case True
      with Inr Cons.prems have nj: "\<not> joins a b t" by fastforce
      from True Inr Cons.prems
      have "add_rows pf pn cols token (add_edge (tx_from t) (tx_to t) v G) ts = Inr G'"
        by (simp split: if_splits)
      with Cons.IH[of "add_edge (tx_from t) (tx_to t) v G"] Cons.prems(2)
      have "edge_weight G' a b = edge_weight (add_edge (tx_from t) (tx_to t) v G) a b"
        by simp
      with nj show ?thesis by (auto simp: add_edge_weight joins_def)
    qed
  qed
qed


lemma edges_from_append:
  "edges_from seen (xs @ ys) = edges_from seen xs @ edges_from (rev (map fst xs) @ seen) ys"
  by (induction xs arbitrary: seen) auto

lemma edges_from_D:
  "(a, b, w) \<in> set (edges_from seen G) \<Longrightarrow>
     b \<notin> set seen \<and> (\<exists>d. (a, d) \<in> set G \<and> (b, w) \<in> set d)"
proof (induction G arbitrary: seen)
  case Nil
  then show ?case by simp
next
  case (Cons p G)
  obtain n d where p: "p = (n, d)" by (cases p)
  from Cons.prems p
  consider "a = n" "(b, w) \<in> set d" "b \<notin> set seen"
    | "(a, b, w) \<in> set (edges_from (n # seen) G)" by auto
  then show ?case
  proof cases
    case 1
    with p show ?thesis by auto
  next
    case 2
    from Cons.IH[OF this] p show ?thesis by auto
  qed
qed

lemma filter_key_distinct:
  "distinct (map fst d) \<Longrightarrow> map_of d y = Some w \<Longrightarrow> filter (\<lambda>(v, w). v = y) d = [(y, w)]"
proof (induction d)
  case Nil
  then show ?case by simp
next
  case (Cons p d)
  obtain k x where p: "p = (k, x)" by (cases p)
  show ?case
  proof (cases "k = y")
    case True
    with Cons.prems p have "y \<notin> fst ` set d" and "x = w" by auto
    then have "filter (\<lambda>(v, w). v = y) d = []"
      by (force simp: filter_empty_conv)
    with True p \<open>x = w\<close> show ?thesis by simp
  next
    case False
    with Cons p show ?thesis by simp
  qed
qed

lemma edges_pair_split:
  assumes G: "G = pre @ (x, d) # post"
    and dist: "distinct (map fst G)"
    and x: "x = a \<and> y = b \<or> x = b \<and> y = a"
    and pre: "a \<notin> fst ` set pre" "b \<notin> fst ` set pre"
  shows "filter (same_pair a b) (edges G)
         = map (\<lambda>(v, w). (x, v, w)) (filter (\<lambda>(v, w). v = y) d)"
proof -
  let ?seen = "rev (map fst pre)"
  have e: "edges G = edges_from [] pre
             @ map (\<lambda>(v, w). (x, v, w)) (filter (\<lambda>(v, w). v \<notin> set ?seen) d)
             @ edges_from (x # ?seen) post"
    by (simp add: edges_def G edges_from_append)
  have 1: "filter (same_pair a b) (edges_from [] pre) = []"
  proof -
    have "\<not> same_pair a b e" if "e \<in> set (edges_from [] pre)" for e
    proof -
      obtain u v w where e: "e = (u, v, w)" by (cases e)
      with that edges_from_D[of u v w "[]" pre] have "u \<in> fst ` set pre" by force
      with pre e show ?thesis by (auto simp: same_pair_def)
    qed
    then show ?thesis by (simp add: filter_empty_conv)
  qed
  have 3: "filter (same_pair a b) (edges_from (x # ?seen) post) = []"
  proof -
    have "\<not> same_pair a b e" if "e \<in> set (edges_from (x # ?seen) post)" for e
    proof -
      obtain u v w where e: "e = (u, v, w)" by (cases e)
      with that edges_from_D[of u v w "x # ?seen" post]
      have "v \<noteq> x" and "u \<in> fst ` set post" by force+
      moreover from dist G have "x \<notin> fst ` set post" by auto
      ultimately show ?thesis using x e by (auto simp: same_pair_def)
    qed
    then show ?thesis by (simp add: filter_empty_conv)
  qed
  have y: "y \<notin> set ?seen" using x pre by auto
  have 2: "filter (same_pair a b)
             (map (\<lambda>(v, w). (x, v, w)) (filter (\<lambda>(v, w). v \<notin> set ?seen) d))
           = map (\<lambda>(v, w). (x, v, w)) (filter (\<lambda>(v, w). v = y) d)"
  proof -
    have "filter (\<lambda>p. same_pair a b (case p of (v, w) \<Rightarrow> (x, v, w))
                        \<and> (case p of (v, w) \<Rightarrow> v \<notin> set ?seen)) d
          = filter (\<lambda>(v, w). v = y) d"
      using x y by (intro filter_cong) (auto simp: same_pair_def)
    then show ?thesis by (simp add: filter_map comp_def conj_commute)
  qed
  show ?thesis unfolding e filter_append 1 2 3 by simp
qed

lemma edges_unique:
  assumes wf: "wf_graph G" and w: "edge_weight G a b = Some w"
  shows "\<exists>u v. filter (same_pair a b) (edges G) = [(u, v, w)]
           \<and> (u = a \<and> v = b \<or> u = b \<and> v = a)"
proof -
  from wf w have w': "edge_weight G b a = Some w" by (simp add: wf_graph_def)
  from w have "a \<in> fst ` set G"
    by (auto simp: edge_weight_def in_keys_iff split: option.splits)
  then obtain p where "p \<in> set G" "fst p = a \<or> fst p = b" by auto
  then have "\<exists>p \<in> set G. fst p = a \<or> fst p = b" by blast
  from split_list_first_prop[OF this]
  obtain pre p post where G: "G = pre @ p # post"
    and p: "fst p = a \<or> fst p = b"
    and pre: "\<forall>q \<in> set pre. \<not> (fst q = a \<or> fst q = b)" by blast
  obtain x d where pd: "p = (x, d)" by (cases p)
  define y where "y = (if x = a then b else a)"
  have xy: "x = a \<and> y = b \<or> x = b \<and> y = a" using p pd by (auto simp: y_def)
  have dist: "distinct (map fst G)" using wf by (simp add: wf_graph_def)
  have "(x, d) \<in> set G" using G pd by simp
  with dist have m: "map_of G x = Some d" by (simp only: map_of_eq_Some_iff)
  with wf have dd: "distinct (map fst d)" by (simp add: wf_graph_def)
  from xy w w' m have "map_of d y = Some w" by (auto simp: edge_weight_def)
  with dd have f: "filter (\<lambda>(v, w). v = y) d = [(y, w)]" by (rule filter_key_distinct)
  have "a \<notin> fst ` set pre" "b \<notin> fst ` set pre" using pre by auto
  from edges_pair_split[OF G[unfolded pd] dist xy this]
  have "filter (same_pair a b) (edges G) = [(x, y, w)]" by (simp add: f)
  with xy show ?thesis by blast
qed

lemma edges_weight:
  assumes wf: "wf_graph G" and e: "(u, v, w) \<in> set (edges G)"
  shows "edge_weight G u v = Some w"
proof -
  from e obtain d where d: "(u, d) \<in> set G" "(v, w) \<in> set d"
    using edges_from_D[of u v w "[]" G] by (auto simp: edges_def)
  from wf d(1) have m: "map_of G u = Some d" by (simp add: wf_graph_def map_of_eq_Some_iff)
  with wf have "distinct (map fst d)" by (simp add: wf_graph_def)
  with d(2) have "map_of d v = Some w" by simp
  with m show ?thesis by (simp add: edge_weight_def)
qed

lemma node_has_edge:
  assumes wf: "wf_graph G" and n: "n \<in> set (nodes G)"
  shows "\<exists>u v w. (u, v, w) \<in> set (edges G) \<and> (n = u \<or> n = v)"
proof -
  from n obtain d where m: "map_of G n = Some d"
    by (auto simp: nodes_def in_keys_iff)
  with wf have "d \<noteq> []" and dd: "distinct (map fst d)" by (auto simp: wf_graph_def)
  then obtain m' w where "(m', w) \<in> set d" by (cases d) auto
  with dd m have "edge_weight G n m' = Some w" by (simp add: edge_weight_def)
  from edges_unique[OF wf this]
  obtain u v where f: "filter (same_pair n m') (edges G) = [(u, v, w)]"
    and uv: "u = n \<and> v = m' \<or> u = m' \<and> v = n" by blast
  have "(u, v, w) \<in> set (filter (same_pair n m') (edges G))" by (simp add: f)
  then have "(u, v, w) \<in> set (edges G)" by simp
  with uv show ?thesis by blast
qed

section \<open>The graph builder\<close>


lemmas ex_simps = create_network_graph_def DataFrame_def value_major_def dec_float_def
  dec_int_def dec_nat_def digit_val_def add_edge_def add_node_def mk_tx_def edges_def
  edge_weight_def same_pair_def joins_def nodes_def

text \<open>
  C1. When several rows with a positive converted value join the same two addresses, in
  either direction, the graph has exactly one edge between them, and its weight is the
  converted value of the last such row: \<open>t\<close> is any such row after which no row
  with a positive value joins the pair. Earlier values are overwritten, not added.
\<close>

theorem last_write_wins:
  assumes "create_network_graph pf pn f token = Inr G"
    and "rows f = pre @ t # post"
    and "value_major pf pn (columns f) token t = Inr w"
    and "0 < w"
    and "\<forall>s \<in> set post. joins (tx_from t) (tx_to t) s \<longrightarrow>
           (\<forall>v. value_major pf pn (columns f) token s = Inr v \<longrightarrow> v \<le> 0)"
  shows "edge_weight G (tx_from t) (tx_to t) = Some w
         \<and> (\<exists>u v. filter (same_pair (tx_from t) (tx_to t)) (edges G) = [(u, v, w)])"
proof -
  let ?run = "add_rows pf pn (columns f) token"
  from assms(1,2) have "?run [] (pre @ t # post) = Inr G"
    by (simp add: create_network_graph_def)
  then obtain G1 where G1: "?run [] pre = Inr G1" and rest: "?run G1 (t # post) = Inr G"
    by (auto simp: add_rows_append split: sum.splits)
  let ?G2 = "add_edge (tx_from t) (tx_to t) w G1"
  from rest assms(3,4) have post: "?run ?G2 post = Inr G"
    by (simp split: if_splits)
  from add_rows_untouched[OF post assms(5)]
  have w: "edge_weight G (tx_from t) (tx_to t) = Some w"
    by (simp add: add_edge_weight)
  have "wf_graph G1" using add_rows_wf[OF G1 wf_graph_Nil] .
  then have "wf_graph ?G2" using assms(4) by (rule wf_graph_add_edge)
  with post have "wf_graph G" by (rule add_rows_wf)
  from edges_unique[OF this w] w show ?thesis by blast
qed

text \<open>
  At two rows between \<open>0xA\<close> and \<open>0xB\<close>, of one and two units in opposite
  directions: one edge, of weight two.
\<close>

theorem last_write_wins_witness:
  "create_network_graph dec_float dec_int
     (DataFrame [mk_tx ''0xA'' ''0xB'' ''1000000000000000000'' 1000,
                 mk_tx ''0xB'' ''0xA'' ''2000000000000000000'' 2000]) False
     = Inr [(''0xA'', [(''0xB'', 2)]), (''0xB'', [(''0xA'', 2)])]
   \<and> edge_weight [(''0xA'', [(''0xB'', 2)]), (''0xB'', [(''0xA'', 2)])] ''0xB'' ''0xA'' = Some 2
   \<and> (\<exists>u v. filter (same_pair ''0xB'' ''0xA'')
               (edges [(''0xA'', [(''0xB'', 2)]), (''0xB'', [(''0xA'', 2)])]) = [(u, v, 2)])"
proof -
  let ?t1 = "mk_tx ''0xA'' ''0xB'' ''1000000000000000000'' 1000"
  let ?t2 = "mk_tx ''0xB'' ''0xA'' ''2000000000000000000'' 2000"
  let ?f = "DataFrame [?t1, ?t2]"
  let ?G = "[(''0xA'', [(''0xB'', 2::real)]), (''0xB'', [(''0xA'', 2)])]"
  have 1: "create_network_graph dec_float dec_int ?f False = Inr ?G"
    by (simp add: ex_simps)
  have 2: "rows ?f = [?t1] @ ?t2 # []" by (simp add: DataFrame_def)
  have 3: "value_major dec_float dec_int (columns ?f) False ?t2 = Inr 2"
    by (simp add: ex_simps)
  have 4: "(0::real) < 2" by simp
  have 5: "\<forall>s \<in> set []. joins (tx_from ?t2) (tx_to ?t2) s \<longrightarrow>
             (\<forall>v. value_major dec_float dec_int (columns ?f) False s = Inr v \<longrightarrow> v \<le> 0)"
    by simp
  have t: "tx_from ?t2 = ''0xB''" "tx_to ?t2 = ''0xA''" by (simp_all add: mk_tx_def)
  from last_write_wins[OF 1 2 3 4 5]
  have "edge_weight ?G ''0xB'' ''0xA'' = Some 2
        \<and> (\<exists>u v. filter (same_pair ''0xB'' ''0xA'') (edges ?G) = [(u, v, 2)])"
    unfolding t .
  with 1 show ?thesis by (rule conjI)
qed

text \<open>
  C2. Every edge of the graph built has a weight above zero, every node is an end of some
  edge, and a row whose converted value is at most zero adds nothing: the graph is the one
  built without that row.
\<close>

theorem graph_positive_connected:
  assumes "create_network_graph pf pn f token = Inr G"
  shows "(\<forall>(u, v, w) \<in> set (edges G). 0 < w)
       \<and> (\<forall>n \<in> set (nodes G). \<exists>(u, v, w) \<in> set (edges G). n = u \<or> n = v)
       \<and> (\<forall>pre t post x. rows f = pre @ t # post
             \<and> value_major pf pn (columns f) token t = Inr x \<and> x \<le> 0
           \<longrightarrow> create_network_graph pf pn (f\<lparr>rows := pre @ post\<rparr>) token = Inr G)"
proof -
  from assms have wf: "wf_graph G"
    unfolding create_network_graph_def using add_rows_wf wf_graph_Nil by blast
  have 1: "\<forall>(u, v, w) \<in> set (edges G). 0 < w"
  proof -
    have "0 < w" if "(u, v, w) \<in> set (edges G)" for u v w
    proof -
      have "edge_weight G u v = Some w" using edges_weight[OF wf that] .
      moreover have "\<forall>u v w. edge_weight G u v = Some w \<longrightarrow> 0 < w"
        using wf unfolding wf_graph_def by (elim conjE)
      ultimately show ?thesis by blast
    qed
    then show ?thesis by (intro ballI) (simp only: split_paired_all case_prod_conv)
  qed
  have 2: "\<forall>n \<in> set (nodes G). \<exists>(u, v, w) \<in> set (edges G). n = u \<or> n = v"
  proof
    fix n assume "n \<in> set (nodes G)"
    from node_has_edge[OF wf this]
    obtain u v w where "(u, v, w) \<in> set (edges G)" "n = u \<or> n = v" by blast
    then show "\<exists>(u, v, w) \<in> set (edges G). n = u \<or> n = v"
      by (intro bexI[of _ "(u, v, w)"]) simp_all
  qed
  have 3: "create_network_graph pf pn (f\<lparr>rows := pre @ post\<rparr>) token = Inr G"
    if "rows f = pre @ t # post" "value_major pf pn (columns f) token t = Inr x" "x \<le> 0"
    for pre t post x
  proof -
    let ?run = "add_rows pf pn (columns f) token"
    from assms that(1) have a: "?run [] (pre @ t # post) = Inr G"
      by (simp add: create_network_graph_def)
    then obtain G1 where G1: "?run [] pre = Inr G1" and "?run G1 (t # post) = Inr G"
      by (auto simp: add_rows_append split: sum.splits)
    with that(2,3) have "?run G1 post = Inr G" by simp
    with G1 have "?run [] (pre @ post) = Inr G" by (simp add: add_rows_append)
    then show ?thesis by (simp add: create_network_graph_def)
  qed
  show ?thesis using 1 2 3 by blast
qed

text \<open>
  At a row of value zero from \<open>0xA\<close> to \<open>0xB\<close> followed by two units from
  \<open>0xB\<close> to \<open>0xC\<close>: one edge, and \<open>0xA\<close> is not a node.
\<close>

theorem graph_positive_connected_witness:
  "create_network_graph dec_float dec_int
     (DataFrame [mk_tx ''0xA'' ''0xB'' ''0'' 1000,
                 mk_tx ''0xB'' ''0xC'' ''2000000000000000000'' 2000]) False
     = Inr [(''0xB'', [(''0xC'', 2)]), (''0xC'', [(''0xB'', 2)])]
   \<and> edges [(''0xB'', [(''0xC'', 2)]), (''0xC'', [(''0xB'', 2)])] = [(''0xB'', ''0xC'', 2)]
   \<and> nodes [(''0xB'', [(''0xC'', 2::real)]), (''0xC'', [(''0xB'', 2)])] = [''0xB'', ''0xC'']
   \<and> create_network_graph dec_float dec_int
       (DataFrame [mk_tx ''0xB'' ''0xC'' ''2000000000000000000'' 2000]) False
     = Inr [(''0xB'', [(''0xC'', 2)]), (''0xC'', [(''0xB'', 2)])]"
proof -
  let ?t1 = "mk_tx ''0xA'' ''0xB'' ''0'' 1000"
  let ?t2 = "mk_tx ''0xB'' ''0xC'' ''2000000000000000000'' 2000"
  let ?f = "DataFrame [?t1, ?t2]"
  let ?G = "[(''0xB'', [(''0xC'', 2::real)]), (''0xC'', [(''0xB'', 2)])]"
  have 1: "create_network_graph dec_float dec_int ?f False = Inr ?G"
    by (simp add: ex_simps)
  have r: "rows ?f = [] @ ?t1 # [?t2]" by (simp add: DataFrame_def)
  have v: "value_major dec_float dec_int (columns ?f) False ?t1 = Inr 0"
    by (simp add: ex_simps)
  have f': "?f\<lparr>rows := [] @ [?t2]\<rparr> = DataFrame [?t2]"
    by (simp add: DataFrame_def mk_tx_def)
  from graph_positive_connected[OF 1] r v
  have "create_network_graph dec_float dec_int (?f\<lparr>rows := [] @ [?t2]\<rparr>) False = Inr ?G"
    by (elim conjE allE[of _ "[]"] allE[of _ ?t1] allE[of _ "[?t2]"] allE[of _ 0]) simp
  moreover have "edges ?G = [(''0xB'', ''0xC'', 2)]" by (simp add: edges_def)
  moreover have "nodes ?G = [''0xB'', ''0xC'']" by (simp add: nodes_def)
  ultimately show ?thesis using 1 unfolding f' by blast
qed

section \<open>Marker sizes\<close>

lemma ln_3_bounds: "ln (2::real) < ln 3" "ln (3::real) < 15" "ln (2::real) < 15"
proof -
  show "ln (2::real) < ln 3" by simp
  have "ln (3::real) < 3" by (rule ln_less_self) simp
  then show "ln (3::real) < 15" by linarith
  have "ln (2::real) < 1" by (rule ln_2_less_1)
  then show "ln (2::real) < 15" by linarith
qed

text \<open>
  C6. In the figure every node gets the size \<open>node_size\<close> computes from its
  neighbour dict. The focal node has size 15 whatever its degree; any other node has
  \<open>min (10 + ln (degree + 1)) 25\<close>, which does not decrease when the degree grows and
  never exceeds 25.
\<close>

theorem node_size_rule:
  "node_sizes (draw_plotly_graph lay G is_token c) = map (\<lambda>(n, d). node_size c n d) G
   \<and> node_size (Some n) n d = 15
   \<and> (c \<noteq> Some n \<longrightarrow> node_size c n d = min (10 + ln (real (degree_of n d) + 1)) 25)
   \<and> (c \<noteq> Some n \<and> c' \<noteq> Some n' \<and> degree_of n d \<le> degree_of n' d'
        \<longrightarrow> node_size c n d \<le> node_size c' n' d')
   \<and> (c \<noteq> Some n \<longrightarrow> node_size c n d \<le> 25)"
proof -
  have 1: "node_sizes (draw_plotly_graph lay G is_token c) = map (\<lambda>(n, d). node_size c n d) G"
    by (simp add: draw_plotly_graph_def Let_def)
  have 2: "node_size (Some n) n d = 15"
    by (simp add: node_size_def center_size_def)
  have 3: "node_size c n d = min (10 + ln (real (degree_of n d) + 1)) 25" if "c \<noteq> Some n"
    using that by (auto simp: node_size_def base_size_def max_size_def)
  have 4: "node_size c n d \<le> node_size c' n' d'"
    if "c \<noteq> Some n" "c' \<noteq> Some n'" "degree_of n d \<le> degree_of n' d'"
  proof -
    have "min (10 + ln (real (degree_of n d) + 1)) 25
          \<le> min (10 + ln (real (degree_of n' d') + 1)) (25::real)"
      by (intro min.mono add_left_mono) (simp_all add: that(3))
    then show ?thesis
      using that(1,2) by (simp add: node_size_def base_size_def max_size_def)
  qed
  have 5: "node_size c n d \<le> 25" if "c \<noteq> Some n"
    using that by (auto simp: node_size_def max_size_def)
  show ?thesis using 1 2 3 4 5 by blast
qed

text \<open>
  With focal node \<open>0xA\<close>: the focal node of degree two has size 15, a node of degree
  one has \<open>10 + ln 2\<close>, at most the size of a node of degree two, itself at most 25.
\<close>

theorem node_size_rule_witness:
  "node_size (Some ''0xA'') ''0xA'' [(''0xB'', 1), (''0xC'', 1)] = 15
   \<and> node_size (Some ''0xA'') ''0xB'' [(''0xA'', 1)] = 10 + ln 2
   \<and> node_size (Some ''0xA'') ''0xB'' [(''0xA'', 1)]
       \<le> node_size (Some ''0xA'') ''0xC'' [(''0xA'', 1), (''0xB'', 1)]
   \<and> node_size (Some ''0xA'') ''0xC'' [(''0xA'', 1), (''0xB'', 1)] \<le> 25"
proof -
  let ?c = "Some ''0xA''"
  let ?dB = "[(''0xA'', 1::real)]"
  let ?dC = "[(''0xA'', 1::real), (''0xB'', 1)]"
  note r = node_size_rule[of origin_layout "[]" False ?c "''0xB''" ?dB ?c "''0xC''" ?dC]
  note r' = node_size_rule[of origin_layout "[]" False ?c "''0xC''" ?dC ?c "''0xC''" ?dC]
  note r0 = node_size_rule[of origin_layout "[]" False ?c "''0xA''" "[(''0xB'', 1), (''0xC'', 1)]" ?c "''0xC''" ?dC]
  have ne: "?c \<noteq> Some ''0xB''" "?c \<noteq> Some ''0xC''" by simp_all
  have deg: "degree_of ''0xB'' ?dB = 1" "degree_of ''0xC'' ?dC = 2"
    by (simp_all add: degree_of_def)
  from r0 have a: "node_size ?c ''0xA'' [(''0xB'', 1), (''0xC'', 1)] = 15" by blast
  from r ne have "node_size ?c ''0xB'' ?dB = min (10 + ln (real (degree_of ''0xB'' ?dB) + 1)) 25"
    by blast
  then have b: "node_size ?c ''0xB'' ?dB = 10 + ln 2"
    using ln_3_bounds(3) by (simp add: deg)
  from r ne deg have c: "node_size ?c ''0xB'' ?dB \<le> node_size ?c ''0xC'' ?dC" by simp
  from r' ne have d: "node_size ?c ''0xC'' ?dC \<le> 25" by blast
  from a b c d show ?thesis by blast
qed

section \<open>The callback at concrete inputs\<close>

lemmas run_simps = update_graphs_def fetch_transactions_def load_result_def DataFrame_def
  empty_frame_def df_empty_def convert_tokenDecimal_def hide_zero_rows_def graph_div_def

text \<open>
  C3. The claim is that every run of the callback returns three components and lets no
  exception out. When both lists are empty, whether the requests return empty lists or
  fail, line 50 returns two components, where the callback declares three outputs and
  its other returns give three; and with the zero-value filter on, line 46 raises
  \<^verbatim>\<open>KeyError\<close> on the frame without columns.
\<close>

theorem both_empty_two_units:
  "update_graphs pf pn fs fa lay 1 address []
     (Response 200 (Some (Result_records []))) (Response 200 (Some (Result_records [])))
     = Inr [Div ''No data available for Ethereum transactions'',
            Div ''No data available for ERC20 transactions'']
   \<and> update_graphs pf pn fs fa lay 1 address []
       (Response 404 None) (Response 404 None)
     = Inr [Div ''No data available for Ethereum transactions'',
            Div ''No data available for ERC20 transactions'']
   \<and> update_graphs pf pn fs fa lay 1 address [''hide'']
       (Response 404 None) (Response 404 None)
     = Inl KeyError"
  by (simp add: run_simps)

text \<open>
  C4. The claim is that an empty token list beside a non-empty native list gives a
  placeholder for the token chart and populated native chart and time series. When the
  token request returns an empty list, line 100 raises \<^verbatim>\<open>KeyError\<close> on the frame
  without columns, the handler empties both frames, and the callback returns the two
  placeholders. When the token request fails instead and the zero-value filter is on,
  line 47 raises \<^verbatim>\<open>KeyError\<close>.
\<close>

theorem empty_token_list_discards_native:
  "fetch_transactions dec_int
     (Response 200 (Some (Result_records [mk_tx ''0xA'' ''0xB'' ''1000000000000000000'' 1000])))
     (Response 200 (Some (Result_records [])))
     = (empty_frame, empty_frame)
   \<and> update_graphs dec_float dec_int float64_sum float64_add origin_layout 1 ''0xA'' []
       (Response 200 (Some (Result_records [mk_tx ''0xA'' ''0xB'' ''1000000000000000000'' 1000])))
       (Response 200 (Some (Result_records [])))
     = Inr [Div ''No data available for Ethereum transactions'',
            Div ''No data available for ERC20 transactions'']
   \<and> update_graphs dec_float dec_int float64_sum float64_add origin_layout 1 ''0xA'' [''hide'']
       (Response 200 (Some (Result_records [mk_tx ''0xA'' ''0xB'' ''1000000000000000000'' 1000])))
       (Response 404 None)
     = Inl KeyError"
  by (simp add: run_simps mk_tx_def)

text \<open>
  The run the claim describes, reached when the token request fails and the filter is
  off, is in the section on the time series below.
\<close>

section \<open>Rounding to float64\<close>

lemma rhe_bounds: "of_int (round_half_even y) \<le> y + 1 / 2" "y - 1 / 2 \<le> of_int (round_half_even y)"
  unfolding round_half_even_def Let_def by (auto; linarith)+

lemma rhe_of_int [simp]: "round_half_even (of_int k) = k"
  by (simp add: round_half_even_def)

lemma rhe_near:
  assumes "of_int k - 1 / 2 < y" "y < of_int k + 1 / 2"
  shows "round_half_even y = k"
proof -
  have "\<lfloor>y\<rfloor> = k \<or> \<lfloor>y\<rfloor> = k - 1" using assms by linarith
  then show ?thesis
  proof
    assume f: "\<lfloor>y\<rfloor> = k"
    then have "y - of_int k < 1 / 2" using assms by linarith
    with f show ?thesis by (simp add: round_half_even_def)
  next
    assume f: "\<lfloor>y\<rfloor> = k - 1"
    then have "1 / 2 < y - of_int (k - 1)" using assms by simp
    with f show ?thesis by (simp add: round_half_even_def Let_def)
  qed
qed

lemma rhe_mono:
  assumes "x \<le> y"
  shows "round_half_even x \<le> round_half_even y"
proof (cases "\<lfloor>x\<rfloor> = \<lfloor>y\<rfloor>")
  case True
  then show ?thesis using assms
    unfolding round_half_even_def Let_def by (auto; linarith)
next
  case False
  with assms have lt: "\<lfloor>x\<rfloor> < \<lfloor>y\<rfloor>" using floor_mono[OF assms] by linarith
  have "round_half_even x \<le> \<lfloor>x\<rfloor> + 1"
    unfolding round_half_even_def Let_def by auto
  moreover have "\<lfloor>y\<rfloor> \<le> round_half_even y"
    unfolding round_half_even_def Let_def by auto
  ultimately show ?thesis using lt by linarith
qed

lemma rhe_minus: "round_half_even (- y) = - round_half_even y"
proof (cases "y = of_int \<lfloor>y\<rfloor>")
  case True
  then obtain k where "y = of_int k" ..
  then show ?thesis by (simp flip: of_int_minus)
next
  case False
  then have f: "\<lfloor>- y\<rfloor> = - \<lfloor>y\<rfloor> - 1" by linarith
  have d: "0 < y - of_int \<lfloor>y\<rfloor>" "y - of_int \<lfloor>y\<rfloor> < 1" using False by linarith+
  show ?thesis
    unfolding round_half_even_def Let_def f using d
    by (auto simp: algebra_simps)
qed


lemma floor_log2_bounds:
  assumes "0 < x"
  shows "2 powr of_int \<lfloor>log 2 x\<rfloor> \<le> x" and "x < 2 powr (of_int \<lfloor>log 2 x\<rfloor> + 1)"
proof -
  have x: "2 powr log 2 x = x" using assms by simp
  have "2 powr of_int \<lfloor>log 2 x\<rfloor> \<le> 2 powr log 2 x"
    by (rule powr_mono) simp_all
  with x show "2 powr of_int \<lfloor>log 2 x\<rfloor> \<le> x" by simp
  have "log 2 x < of_int \<lfloor>log 2 x\<rfloor> + 1" by linarith
  then have "2 powr log 2 x < 2 powr (of_int \<lfloor>log 2 x\<rfloor> + 1)"
    by (rule powr_less_mono) simp
  with x show "x < 2 powr (of_int \<lfloor>log 2 x\<rfloor> + 1)" by simp
qed

lemma floor_log2_unique:
  assumes "0 < x" "2 powr of_int n \<le> x" "x < 2 powr (of_int n + 1)"
  shows "\<lfloor>log 2 x\<rfloor> = n"
proof (rule floor_unique)
  show "of_int n \<le> log 2 x" using assms(1,2) by (simp add: le_log_iff)
  show "log 2 x < of_int n + 1" using assms(1,3) by (simp add: log_less_iff)
qed

lemma float64_ulp_pos: "0 < float64_ulp x"
  by (simp add: float64_ulp_def)

lemma float64_ulp_minus: "float64_ulp (- x) = float64_ulp x"
  by (simp add: float64_ulp_def float64_exponent_def)

lemma float64_round_minus: "float64_round (- x) = - float64_round x"
  by (simp add: float64_round_def float64_ulp_minus rhe_minus)

lemma float64_round_nonneg:
  assumes "0 \<le> x"
  shows "0 \<le> float64_round x"
proof (cases "x = 0")
  case True
  then show ?thesis by (simp add: float64_round_def)
next
  case False
  have "0 \<le> x / float64_ulp x" using assms float64_ulp_pos[of x] by simp
  then have "round_half_even 0 \<le> round_half_even (x / float64_ulp x)" by (rule rhe_mono)
  then have "0 \<le> round_half_even (x / float64_ulp x)"
    using rhe_of_int[of 0] by simp
  then show ?thesis using False float64_ulp_pos[of x] by (simp add: float64_round_def)
qed

lemma ulp_times: "float64_ulp x * 2 ^ 52 = 2 powr of_int (float64_exponent x)"
proof -
  have "2 powr (of_int (float64_exponent x) - 52) * (2::real) powr 52
        = 2 powr (of_int (float64_exponent x) - 52 + 52)"
    by (rule powr_add[symmetric])
  moreover have "(2::real) powr 52 = 2 ^ 52" by simp
  ultimately show ?thesis by (simp add: float64_ulp_def)
qed

lemma ulp_times': "float64_ulp x * 2 ^ 53 = 2 powr (of_int (float64_exponent x) + 1)"
proof -
  have "2 powr (of_int (float64_exponent x) - 52) * (2::real) powr 53
        = 2 powr (of_int (float64_exponent x) - 52 + 53)"
    by (rule powr_add[symmetric])
  moreover have "(2::real) powr 53 = 2 ^ 53" by simp
  moreover have "of_int (float64_exponent x) - 52 + 53 = (of_int (float64_exponent x) + 1 :: real)"
    by simp
  ultimately show ?thesis by (simp add: float64_ulp_def)
qed

text \<open>Upper bound: a positive number rounds to at most the next power of two.\<close>

lemma float64_round_upper:
  assumes "0 < x"
  shows "float64_round x \<le> 2 powr (of_int (float64_exponent x) + 1)"
proof -
  let ?q = "float64_ulp x"
  have "of_int \<lfloor>log 2 x\<rfloor> \<le> (of_int (float64_exponent x) :: real)"
    using assms by (simp add: float64_exponent_def)
  then have "(2::real) powr (of_int \<lfloor>log 2 x\<rfloor> + 1)
             \<le> 2 powr (of_int (float64_exponent x) + 1)"
    by (intro powr_mono) simp_all
  with floor_log2_bounds(2)[OF assms]
  have "x \<le> ?q * 2 ^ 53" by (simp only: ulp_times')
  then have "x / ?q \<le> 2 ^ 53" using float64_ulp_pos[of x] by (simp add: field_simps)
  then have "x / ?q \<le> of_int (2 ^ 53)" by simp
  from rhe_mono[OF this] have "round_half_even (x / ?q) \<le> 2 ^ 53" by (simp only: rhe_of_int)
  then have "(of_int (round_half_even (x / ?q)) :: real) \<le> of_int (2 ^ 53)"
    by (simp only: of_int_le_iff)
  then have "(of_int (round_half_even (x / ?q)) :: real) \<le> 2 ^ 53" by simp
  then have "?q * of_int (round_half_even (x / ?q)) \<le> ?q * 2 ^ 53"
    using float64_ulp_pos[of x] by (intro mult_left_mono) simp_all
  then show ?thesis using assms by (simp only: float64_round_def ulp_times') simp
qed

text \<open>Lower bound, for a number in the normal range.\<close>

lemma float64_round_lower:
  assumes "0 < x" and "- 1022 \<le> \<lfloor>log 2 x\<rfloor>"
  shows "2 powr of_int (float64_exponent x) \<le> float64_round x"
proof -
  let ?q = "float64_ulp x"
  have e: "float64_exponent x = \<lfloor>log 2 x\<rfloor>"
    using assms by (simp add: float64_exponent_def)
  with floor_log2_bounds(1)[OF assms(1)]
  have "?q * 2 ^ 52 \<le> x" by (simp only: ulp_times)
  then have "2 ^ 52 \<le> x / ?q" using float64_ulp_pos[of x] by (simp add: field_simps)
  then have "of_int (2 ^ 52) \<le> x / ?q" by simp
  from rhe_mono[OF this] have "2 ^ 52 \<le> round_half_even (x / ?q)" by (simp only: rhe_of_int)
  then have "(of_int (2 ^ 52) :: real) \<le> of_int (round_half_even (x / ?q))"
    by (simp only: of_int_le_iff)
  then have "2 ^ 52 \<le> (of_int (round_half_even (x / ?q)) :: real)" by simp
  then have "?q * 2 ^ 52 \<le> ?q * of_int (round_half_even (x / ?q))"
    using float64_ulp_pos[of x] by (intro mult_left_mono) simp_all
  then show ?thesis using assms(1) by (simp only: float64_round_def ulp_times) simp
qed

lemma float64_exponent_mono:
  assumes "0 < x" "x \<le> y"
  shows "float64_exponent x \<le> float64_exponent y"
proof -
  have "log 2 x \<le> log 2 y" using assms by simp
  then have "\<lfloor>log 2 x\<rfloor> \<le> \<lfloor>log 2 y\<rfloor>" by (rule floor_mono)
  then show ?thesis using assms by (simp add: float64_exponent_def)
qed

lemma float64_round_mono_pos:
  assumes "0 < x" "x \<le> y"
  shows "float64_round x \<le> float64_round y"
proof (cases "float64_exponent x = float64_exponent y")
  case True
  then have q: "float64_ulp x = float64_ulp y" by (simp add: float64_ulp_def)
  have "x / float64_ulp y \<le> y / float64_ulp y"
    using assms float64_ulp_pos[of y] by (simp add: divide_right_mono)
  from rhe_mono[OF this] show ?thesis
    using assms float64_ulp_pos[of y] by (simp add: float64_round_def q)
next
  case False
  with float64_exponent_mono[OF assms]
  have lt: "float64_exponent x < float64_exponent y" by simp
  have y: "0 < y" using assms by simp
  have "- 1022 \<le> float64_exponent x" by (simp add: float64_exponent_def)
  with lt have "- 1022 < float64_exponent y" by simp
  then have ny: "- 1022 \<le> \<lfloor>log 2 y\<rfloor>"
    using y by (simp add: float64_exponent_def max_def split: if_splits)
  have "float64_round x \<le> 2 powr (of_int (float64_exponent x) + 1)"
    using float64_round_upper[OF assms(1)] .
  also have "\<dots> \<le> 2 powr of_int (float64_exponent y)"
  proof -
    from lt have "float64_exponent x + 1 \<le> float64_exponent y" by simp
    then have "(of_int (float64_exponent x + 1) :: real) \<le> of_int (float64_exponent y)"
      by (simp only: of_int_le_iff)
    then have "of_int (float64_exponent x) + 1 \<le> (of_int (float64_exponent y) :: real)"
      by simp
    then show ?thesis by (intro powr_mono) simp_all
  qed
  also have "\<dots> \<le> float64_round y" using float64_round_lower[OF y ny] .
  finally show ?thesis .
qed

lemma float64_round_mono:
  assumes "x \<le> y"
  shows "float64_round x \<le> float64_round y"
proof -
  consider "0 < x" | "x \<le> 0" "0 \<le> y" | "y < 0" by linarith
  then show ?thesis
  proof cases
    case 1
    then show ?thesis using assms by (rule float64_round_mono_pos)
  next
    case 2
    have "float64_round x = - float64_round (- x)" by (simp add: float64_round_minus)
    moreover have "0 \<le> float64_round (- x)" using 2 by (intro float64_round_nonneg) simp
    moreover have "0 \<le> float64_round y" using 2 by (intro float64_round_nonneg)
    ultimately show ?thesis by simp
  next
    case 3
    then have "0 < - y" "- y \<le> - x" using assms by simp_all
    from float64_round_mono_pos[OF this] show ?thesis by (simp add: float64_round_minus)
  qed
qed


lemma rhe_ulp_upper:
  assumes "0 < x"
  shows "round_half_even (x / float64_ulp x) \<le> 2 ^ 53"
proof -
  let ?q = "float64_ulp x"
  have "of_int \<lfloor>log 2 x\<rfloor> \<le> (of_int (float64_exponent x) :: real)"
    using assms by (simp add: float64_exponent_def)
  then have "(2::real) powr (of_int \<lfloor>log 2 x\<rfloor> + 1)
             \<le> 2 powr (of_int (float64_exponent x) + 1)"
    by (intro powr_mono) simp_all
  with floor_log2_bounds(2)[OF assms]
  have "x \<le> ?q * 2 ^ 53" by (simp only: ulp_times')
  then have "x / ?q \<le> 2 ^ 53" using float64_ulp_pos[of x] by (simp add: field_simps)
  then have "x / ?q \<le> of_int (2 ^ 53)" by simp
  from rhe_mono[OF this] show ?thesis by (simp only: rhe_of_int)
qed

lemma rhe_ulp_lower:
  assumes "0 < x" and "- 1022 \<le> \<lfloor>log 2 x\<rfloor>"
  shows "2 ^ 52 \<le> round_half_even (x / float64_ulp x)"
proof -
  let ?q = "float64_ulp x"
  have e: "float64_exponent x = \<lfloor>log 2 x\<rfloor>"
    using assms by (simp add: float64_exponent_def)
  with floor_log2_bounds(1)[OF assms(1)]
  have "?q * 2 ^ 52 \<le> x" by (simp only: ulp_times)
  then have "2 ^ 52 \<le> x / ?q" using float64_ulp_pos[of x] by (simp add: field_simps)
  then have "of_int (2 ^ 52) \<le> x / ?q" by simp
  from rhe_mono[OF this] show ?thesis by (simp only: rhe_of_int)
qed

lemma rhe_ulp_nonneg:
  assumes "0 < x"
  shows "0 \<le> round_half_even (x / float64_ulp x)"
proof -
  have "of_int 0 \<le> x / float64_ulp x" using assms float64_ulp_pos[of x] by simp
  from rhe_mono[OF this] show ?thesis by (simp only: rhe_of_int)
qed

text \<open>A multiple of the unit in the last place with a 53-bit factor is kept.\<close>

lemma float64_round_grid:
  assumes e: "- 1022 \<le> e" and k: "0 < k" "k < 2 ^ 53" and n: "2 ^ 52 \<le> k \<or> e = - 1022"
  shows "float64_round (2 powr (of_int e - 52) * of_int k) = 2 powr (of_int e - 52) * of_int k"
proof -
  let ?q = "(2::real) powr (of_int e - 52)"
  let ?r = "?q * of_int k"
  have q: "0 < ?q" by simp
  have r: "0 < ?r" using k(1) by simp
  have q52: "?q * 2 ^ 52 = 2 powr of_int e"
  proof -
    have "?q * 2 powr 52 = 2 powr (of_int e - 52 + 52)" by (rule powr_add[symmetric])
    moreover have "(2::real) powr 52 = 2 ^ 52" by simp
    ultimately show ?thesis by simp
  qed
  have q53: "?q * 2 ^ 53 = 2 powr (of_int e + 1)"
  proof -
    have "?q * 2 powr 53 = 2 powr (of_int e - 52 + 53)" by (rule powr_add[symmetric])
    moreover have "(2::real) powr 53 = 2 ^ 53" by simp
    moreover have "of_int e - 52 + 53 = (of_int e + 1 :: real)" by simp
    ultimately show ?thesis by simp
  qed
  have "(of_int k :: real) < of_int (2 ^ 53)" using k(2) by (simp only: of_int_less_iff)
  then have k53: "(of_int k :: real) < 2 ^ 53" by simp
  then have up: "?r < 2 powr (of_int e + 1)"
    using q unfolding q53[symmetric] by (intro mult_strict_left_mono) simp_all
  have ex: "float64_exponent ?r = e"
  proof (cases "2 ^ 52 \<le> k")
    case True
    then have "(of_int (2 ^ 52) :: real) \<le> of_int k" by (simp only: of_int_le_iff)
    then have "(2 ^ 52 :: real) \<le> of_int k" by simp
    then have "?q * 2 ^ 52 \<le> ?r" using q by (intro mult_left_mono) simp_all
    then have "2 powr of_int e \<le> ?r" by (simp only: q52)
    from floor_log2_unique[OF r this up] have "\<lfloor>log 2 ?r\<rfloor> = e" .
    then show ?thesis using e r by (simp add: float64_exponent_def abs_of_pos)
  next
    case False
    with n have e': "e = - 1022" by simp
    from False have "k < 2 ^ 52" by simp
    then have "(of_int k :: real) < of_int (2 ^ 52)" by (simp only: of_int_less_iff)
    then have "(of_int k :: real) < 2 ^ 52" by simp
    then have "?r < ?q * 2 ^ 52" using q by (intro mult_strict_left_mono) simp_all
    then have "?r < 2 powr of_int e" by (simp only: q52)
    then have "log 2 ?r < of_int e" using r by (simp add: log_less_iff)
    then have "\<lfloor>log 2 ?r\<rfloor> < e" by linarith
    then show ?thesis using e' r by (simp add: float64_exponent_def abs_of_pos)
  qed
  then have u: "float64_ulp ?r = ?q" by (simp add: float64_ulp_def)
  have "?r / ?q = of_int k" using q by simp
  then have "round_half_even (?r / float64_ulp ?r) = k" by (simp only: u rhe_of_int)
  then show ?thesis using r by (simp only: float64_round_def u) simp
qed

lemma float64_round_idem_pos:
  assumes "0 < x"
  shows "float64_round (float64_round x) = float64_round x"
proof -
  let ?e = "float64_exponent x"
  let ?k = "round_half_even (x / float64_ulp x)"
  have r: "float64_round x = 2 powr (of_int ?e - 52) * of_int ?k"
    using assms by (simp add: float64_round_def float64_ulp_def)
  have e: "- 1022 \<le> ?e" by (simp add: float64_exponent_def)
  have k0: "0 \<le> ?k" using rhe_ulp_nonneg[OF assms] .
  have k53: "?k \<le> 2 ^ 53" using rhe_ulp_upper[OF assms] .
  consider "?k = 0" | "?k = 2 ^ 53" | "0 < ?k" "?k < 2 ^ 53" using k0 k53 by linarith
  then show ?thesis
  proof cases
    case 1
    then show ?thesis by (simp add: r float64_round_def)
  next
    case 2
    have "2 powr (of_int ?e - 52) * (2::real) powr 1 = 2 powr (of_int ?e - 52 + 1)"
      by (rule powr_add[symmetric])
    then have s: "2 powr (of_int ?e - 52) * (2::real) = 2 powr (of_int (?e + 1) - 52)"
      by (simp add: algebra_simps)
    have "float64_round x = 2 powr (of_int ?e - 52) * 2 * 2 ^ 52"
      unfolding r 2 by simp
    then have r': "float64_round x = 2 powr (of_int (?e + 1) - 52) * of_int (2 ^ 52)"
      unfolding s by simp
    have "float64_round (2 powr (of_int (?e + 1) - 52) * of_int (2 ^ 52))
          = 2 powr (of_int (?e + 1) - 52) * of_int (2 ^ 52)"
      using e by (intro float64_round_grid) simp_all
    then show ?thesis unfolding r' .
  next
    case 3
    have "2 ^ 52 \<le> ?k \<or> ?e = - 1022"
    proof (cases "- 1022 \<le> \<lfloor>log 2 x\<rfloor>")
      case True
      from rhe_ulp_lower[OF assms this] show ?thesis by simp
    next
      case False
      then show ?thesis using assms by (simp add: float64_exponent_def)
    qed
    from float64_round_grid[OF e 3 this] show ?thesis unfolding r .
  qed
qed

lemma float64_round_idem: "float64_round (float64_round x) = float64_round x"
proof -
  consider "0 < x" | "x = 0" | "x < 0" by linarith
  then show ?thesis
  proof cases
    case 1
    then show ?thesis by (rule float64_round_idem_pos)
  next
    case 2
    then show ?thesis by (simp add: float64_round_def)
  next
    case 3
    then have "0 < - x" by simp
    from float64_round_idem_pos[OF this] show ?thesis by (simp add: float64_round_minus)
  qed
qed

lemma float64_round_pow2:
  assumes "- 1022 \<le> n"
  shows "float64_round (2 powr of_int n) = 2 powr of_int n"
proof -
  have "2 powr (of_int n - 52) * (2::real) powr 52 = 2 powr (of_int n - 52 + 52)"
    by (rule powr_add[symmetric])
  then have s: "2 powr (of_int n - 52) * of_int (2 ^ 52) = (2::real) powr of_int n" by simp
  have "float64_round (2 powr (of_int n - 52) * of_int (2 ^ 52))
        = 2 powr (of_int n - 52) * of_int (2 ^ 52)"
    using assms by (intro float64_round_grid) simp_all
  then show ?thesis unfolding s .
qed

lemma float64_round_1: "float64_round 1 = 1"
  using float64_round_pow2[of 0] by simp

lemma float64_round_2: "float64_round 2 = 2"
  using float64_round_pow2[of 1] by simp

lemma float64_round_nonzero:
  "x \<noteq> 0 \<Longrightarrow>
     float64_round x = float64_ulp x * of_int (round_half_even (x / float64_ulp x))"
  by (simp add: float64_round_def)

text \<open>One wei in ether, and what adding it to one ether gives.\<close>

lemma wei_bounds: "2 powr (- 60) \<le> (1 / 10 ^ 18 :: real)" "(1 / 10 ^ 18 :: real) \<le> 2 powr (- 59)"
proof -
  have a: "(2::real) powr (- 60) = 1 / 2 ^ 60" by (simp add: powr_minus_divide)
  have b: "(2::real) powr (- 59) = 1 / 2 ^ 59" by (simp add: powr_minus_divide)
  show "2 powr (- 60) \<le> (1 / 10 ^ 18 :: real)" unfolding a by simp
  show "(1 / 10 ^ 18 :: real) \<le> 2 powr (- 59)" unfolding b by simp
qed

lemma wei_rounded:
  "2 powr (- 60) \<le> float64_round (1 / 10 ^ 18)" "float64_round (1 / 10 ^ 18) \<le> 2 powr (- 59)"
proof -
  have "float64_round (2 powr of_int (- 60)) \<le> float64_round (1 / 10 ^ 18)"
    using wei_bounds(1) by (intro float64_round_mono) simp
  then show "2 powr (- 60) \<le> float64_round (1 / 10 ^ 18)"
    using float64_round_pow2[of "- 60"] by simp
  have "float64_round (1 / 10 ^ 18) \<le> float64_round (2 powr of_int (- 59))"
    using wei_bounds(2) by (intro float64_round_mono) simp
  then show "float64_round (1 / 10 ^ 18) \<le> 2 powr (- 59)"
    using float64_round_pow2[of "- 59"] by simp
qed

lemma wei_negative: "float64_round (- (1 / 10 ^ 18)) < 0"
proof -
  have "0 < (2::real) powr (- 60)" by simp
  with wei_rounded(1) have "0 < float64_round (1 / 10 ^ 18)" by linarith
  then show ?thesis by (simp add: float64_round_minus)
qed

lemma wei_absorbed: "float64_add 1 (float64_round (- (1 / 10 ^ 18))) = 1"
proof -
  let ?g = "float64_round (1 / 10 ^ 18)"
  have a: "(2::real) powr (- 60) = 1 / 2 ^ 60" by (simp add: powr_minus_divide)
  have b: "(2::real) powr (- 59) = 1 / 2 ^ 59" by (simp add: powr_minus_divide)
  from wei_rounded have g: "1 / 2 ^ 60 \<le> ?g" "?g \<le> 1 / 2 ^ 59" unfolding a b by simp_all
  let ?x = "1 - ?g"
  have x: "0 < ?x" "1 / 2 \<le> ?x" "?x < 1" using g by simp_all
  have h: "(2::real) powr of_int (- 1) = 1 / 2" by (simp add: powr_minus_divide)
  have "\<lfloor>log 2 ?x\<rfloor> = - 1"
    using x by (intro floor_log2_unique) (simp_all add: h)
  then have ex: "float64_exponent ?x = - 1" using x by (simp add: float64_exponent_def abs_of_pos)
  have "(2::real) powr (of_int (- 1) - 52) = 1 / 2 ^ 53"
    by (simp add: powr_minus_divide)
  then have q: "float64_ulp ?x = 1 / 2 ^ 53"
    unfolding float64_ulp_def ex .
  have "?x / float64_ulp ?x = 2 ^ 53 - ?g * 2 ^ 53" unfolding q by (simp add: algebra_simps)
  moreover have "?g * 2 ^ 53 \<le> 1 / 64" using g(2) by simp
  moreover have "0 < ?g * 2 ^ 53" using g(1) by simp
  ultimately have "of_int (2 ^ 53) - 1 / 2 < ?x / float64_ulp ?x"
    "?x / float64_ulp ?x < of_int (2 ^ 53) + 1 / 2" by simp_all
  from rhe_near[OF this] have rr: "round_half_even (?x / float64_ulp ?x) = 2 ^ 53" .
  have ne: "?x \<noteq> 0" using x by simp
  have "float64_round ?x = float64_ulp ?x * of_int (round_half_even (?x / float64_ulp ?x))"
    using ne by (rule float64_round_nonzero)
  also have "\<dots> = float64_ulp ?x * of_int (2 ^ 53)" by (simp only: rr)
  also have "\<dots> = (1 / 2 ^ 53) * of_int (2 ^ 53)" by (simp only: q)
  also have "\<dots> = 1" by simp
  finally have "float64_round ?x = 1" .
  then show ?thesis by (simp only: float64_add_def float64_round_minus) simp
qed

lemma float64_round_3: "float64_round 3 = 3"
proof -
  have "(2::real) powr (of_int 1 - 52) = 1 / 2 ^ 51" by (simp add: powr_minus_divide)
  then have s: "2 powr (of_int 1 - 52) * of_int (3 * 2 ^ 51) = (3::real)" by simp
  have "float64_round (2 powr (of_int 1 - 52) * of_int (3 * 2 ^ 51))
        = 2 powr (of_int 1 - 52) * of_int (3 * 2 ^ 51)"
    by (intro float64_round_grid) simp_all
  then show ?thesis unfolding s .
qed

lemma float64_round_6: "float64_round 6 = 6"
proof -
  have "(2::real) powr (of_int 2 - 52) = 1 / 2 ^ 50" by (simp add: powr_minus_divide)
  then have s: "2 powr (of_int 2 - 52) * of_int (3 * 2 ^ 51) = (6::real)" by simp
  have "float64_round (2 powr (of_int 2 - 52) * of_int (3 * 2 ^ 51))
        = 2 powr (of_int 2 - 52) * of_int (3 * 2 ^ 51)"
    by (intro float64_round_grid) simp_all
  then show ?thesis unfolding s .
qed

lemma float64_round_0: "float64_round 0 = 0"
  by (simp add: float64_round_def)

lemmas float64_small = float64_round_0 float64_round_1 float64_round_2 float64_round_3
  float64_round_6 float64_round_minus

lemma float64_sum_is_float: "float64_round (float64_sum vs) = float64_sum vs"
proof (cases vs rule: rev_cases)
  case Nil
  then show ?thesis by (simp add: float64_sum_def float64_round_0)
next
  case (snoc ws w)
  then show ?thesis by (simp add: float64_sum_def float64_add_def float64_round_idem)
qed

text \<open>Adding to a float64 value moves it in the direction of the addend.\<close>

lemma float64_add_up:
  assumes "float64_round a = a" "0 \<le> b"
  shows "a \<le> float64_add a b"
proof -
  have "float64_round a \<le> float64_round (a + b)" using assms(2) by (intro float64_round_mono) simp
  then show ?thesis by (simp add: float64_add_def assms(1))
qed

lemma float64_add_down:
  assumes "float64_round a = a" "b \<le> 0"
  shows "float64_add a b \<le> a"
proof -
  have "float64_round (a + b) \<le> float64_round a" using assms(2) by (intro float64_round_mono) simp
  then show ?thesis by (simp add: float64_add_def assms(1))
qed

section \<open>The time series\<close>

lemma group_add_keys: "fst ` set (group_add t v gs) = insert t (fst ` set gs)"
  by (induction gs) force+

lemma group_add_sorted:
  "sorted_wrt (<) (map fst gs) \<Longrightarrow> sorted_wrt (<) (map fst (group_add t v gs))"
proof (induction gs)
  case Nil
  then show ?case by simp
next
  case (Cons g gs)
  obtain t' s where g: "g = (t', s)" by (cases g)
  show ?case
  proof (cases "t = t'")
    case True
    with Cons.prems g show ?thesis by simp
  next
    case False
    show ?thesis
    proof (cases "t < t'")
      case True
      with Cons.prems g False show ?thesis by force
    next
      case ge: False
      with False have lt: "t' < t" by simp
      from Cons g have "sorted_wrt (<) (map fst (group_add t v gs))" by simp
      moreover have "\<forall>k \<in> fst ` set (group_add t v gs). t' < k"
        using Cons.prems g lt by (auto simp: group_add_keys)
      ultimately show ?thesis using g False ge by simp
    qed
  qed
qed

lemma group_add_map_of:
  "sorted_wrt (<) (map fst gs) \<Longrightarrow>
   map_of (group_add t v gs) =
     (map_of gs)(t \<mapsto> (case map_of gs t of None \<Rightarrow> [v] | Some vs \<Rightarrow> vs @ [v]))"
proof (induction gs)
  case Nil
  then show ?case by simp
next
  case (Cons g gs)
  obtain t' s where g: "g = (t', s)" by (cases g)
  show ?case
  proof (cases "t = t'")
    case True
    with g show ?thesis by (simp add: fun_eq_iff)
  next
    case False
    show ?thesis
    proof (cases "t < t'")
      case True
      have "t \<notin> fst ` set gs" using Cons.prems g True by force
      then have "map_of gs t = None" by (simp add: map_of_eq_None_iff)
      with g False True show ?thesis by (simp add: fun_eq_iff)
    next
      case ge: False
      from Cons.prems have "sorted_wrt (<) (map fst gs)" by simp
      from Cons.IH[OF this] g False ge show ?thesis by (simp add: fun_eq_iff)
    qed
  qed
qed

lemma groups_from_sorted:
  "sorted_wrt (<) (map fst gs) \<Longrightarrow> sorted_wrt (<) (map fst (groups_from gs pts))"
  by (induction gs pts rule: groups_from.induct) (simp_all add: group_add_sorted)

lemma groups_from_map_of:
  "sorted_wrt (<) (map fst gs) \<Longrightarrow>
   map_of (groups_from gs pts) t =
     (case map_of gs t of
        None \<Rightarrow> if t \<in> fst ` set pts then Some (values_at pts t) else None
      | Some vs \<Rightarrow> Some (vs @ values_at pts t))"
proof (induction gs pts rule: groups_from.induct)
  case (1 gs)
  then show ?case by (simp add: values_at_def split: option.splits)
next
  case (2 gs t0 v0 pts)
  from 2 have "map_of (groups_from (group_add t0 v0 gs) pts) t =
     (case map_of (group_add t0 v0 gs) t of
        None \<Rightarrow> if t \<in> fst ` set pts then Some (values_at pts t) else None
      | Some vs \<Rightarrow> Some (vs @ values_at pts t))"
    by (simp add: group_add_sorted)
  then show ?case using "2.prems"
    by (auto simp: group_add_map_of values_at_def split: option.splits)
qed

lemma sorted_alist_unique:
  fixes xs ys :: "(int \<times> 'v) list"
  assumes "sorted_wrt (<) (map fst xs)" "sorted_wrt (<) (map fst ys)" "map_of xs = map_of ys"
  shows "xs = ys"
proof -
  have "set (map fst xs) = set (map fst ys)"
    using assms(3) by (metis dom_map_of_conv_image_fst list.set_map)
  with assms(1,2) have k: "map fst xs = map fst ys"
    by (intro sorted_distinct_set_unique) (simp_all add: strict_sorted_iff)
  then have len: "length xs = length ys" by (metis length_map)
  have d: "distinct (map fst xs)" using assms(1) by (simp add: strict_sorted_iff)
  have "map_of (zip (map fst xs) (map snd xs)) = map_of xs"
    by (simp only: zip_map_fst_snd)
  moreover have "map_of (zip (map fst xs) (map snd ys)) = map_of ys"
    unfolding k by (simp only: zip_map_fst_snd)
  ultimately
  have "map_of (zip (map fst xs) (map snd xs)) = map_of (zip (map fst xs) (map snd ys))"
    using assms(3) by simp
  then have "map snd xs = map snd ys"
    by (intro map_of_zip_inject[OF _ _ d]) (simp_all add: len)
  with k show ?thesis by (metis zip_map_fst_snd)
qed

lemma groupby_spec:
  "groupby pts = map (\<lambda>t. (t, values_at pts t)) (sorted_list_of_set (fst ` set pts))"
proof (rule sorted_alist_unique)
  show "sorted_wrt (<) (map fst (groupby pts))"
    by (simp add: groupby_def groups_from_sorted)
  show "sorted_wrt (<) (map fst (map (\<lambda>t. (t, values_at pts t))
          (sorted_list_of_set (fst ` set pts))))"
    by (simp add: comp_def)
  show "map_of (groupby pts)
        = map_of (map (\<lambda>t. (t, values_at pts t)) (sorted_list_of_set (fst ` set pts)))"
    by (rule ext)
      (simp add: groupby_def groups_from_map_of map_of_map_restrict restrict_map_def)
qed

lemma groupby_sum_spec: "groupby_sum fs pts = spec_group_sums fs pts"
  by (simp add: groupby_sum_def spec_group_sums_def groupby_spec comp_def)

lemma cumsum_from_nth:
  "cumsum_from fa acc gs =
     map (\<lambda>i. (fst (gs ! i), foldl fa acc (map snd (take (Suc i) gs)))) [0..<length gs]"
proof (induction gs arbitrary: acc)
  case Nil
  then show ?case by simp
next
  case (Cons g gs)
  obtain t s where g: "g = (t, s)" by (cases g)
  have "[0..<length (g # gs)] = 0 # map Suc [0..<length gs]"
    by (simp add: upt_conv_Cons map_Suc_upt del: upt_Suc)
  then show ?case using Cons[of "fa acc s"] g
    by (simp add: comp_def del: upt_Suc)
qed

lemma cumsum_spec: "cumsum fa gs = spec_cumulative fa gs"
proof (cases gs)
  case Nil
  then show ?thesis by (simp add: spec_cumulative_def)
next
  case (Cons g gs')
  obtain t s where g: "g = (t, s)" by (cases g)
  have "[0..<length (g # gs')] = 0 # map Suc [0..<length gs']"
    by (simp add: upt_conv_Cons map_Suc_upt del: upt_Suc)
  then show ?thesis using Cons g
    by (simp add: spec_cumulative_def cumsum_from_nth comp_def del: upt_Suc)
qed

lemma astype_float_Some:
  "map pf ss = map Some xs \<Longrightarrow> astype_float pf ss = Inr xs"
proof (induction ss arbitrary: xs)
  case Nil
  then show ?case by simp
next
  case (Cons s ss)
  then obtain x xs' where "xs = x # xs'" "pf s = Some x" "map pf ss = map Some xs'"
    by (cases xs) auto
  with Cons.IH[of xs'] show ?case by simp
qed

lemma to_datetime_col_ok:
  "\<forall>t \<in> set ts. - 9223372036 \<le> t \<and> t \<le> 9223372036 \<Longrightarrow> to_datetime_col ts = Inr ts"
  by (induction ts) (simp_all add: to_datetime_def)

text \<open>
  C5. On a frame with the timestamp and value columns (a non-empty native list as fetched
  is one) whose timestamps lie in the range of calendar times and whose value strings all
  parse, the time series is the one the specification describes: each raw value string is
  converted and divided by \<open>10 ^ 18\<close> once, the rows are grouped by exact timestamp,
  the values of a group are summed, and the result is the running sum of the group sums
  in ascending order of time. This holds for every float sum and float addition. Outside
  these hypotheses lines 64 and 66 raise.
\<close>

theorem time_series_refines_spec:
  assumes "''timeStamp'' \<in> set (columns f)" and "''value'' \<in> set (columns f)"
    and "\<forall>r \<in> set (rows f). - 9223372036 \<le> timeStamp r \<and> timeStamp r \<le> 9223372036"
    and "map pf (map tx_value (rows f)) = map Some xs"
  shows "time_series pf fs fa f
         = Inr (spec_time_series fs fa
                  (zip (map timeStamp (rows f)) (map (\<lambda>x. x / 10 ^ 18) xs)))"
proof -
  have "to_datetime_col (map timeStamp (rows f)) = Inr (map timeStamp (rows f))"
    using assms(3) by (intro to_datetime_col_ok) simp
  with assms(1,2) astype_float_Some[OF assms(4)] show ?thesis
    by (simp add: time_series_def group_sums_def groupby_sum_spec cumsum_spec
        spec_time_series_def)
qed

lemmas ts_simps = time_series_def group_sums_def groupby_sum_def groupby_def to_datetime_def
  DataFrame_def mk_tx_def dec_float_def dec_int_def dec_nat_def digit_val_def
  float64_sum_def float64_add_def

text \<open>
  At three rows, two of them at the same time, with float64 arithmetic: the points are
  three units at 500 and six units at 1000.
\<close>

theorem time_series_refines_spec_witness:
  "time_series dec_float float64_sum float64_add
     (DataFrame [mk_tx ''0xA'' ''0xB'' ''1000000000000000000'' 1000,
                 mk_tx ''0xC'' ''0xA'' ''3000000000000000000'' 500,
                 mk_tx ''0xB'' ''0xC'' ''2000000000000000000'' 1000])
   = Inr [(500, 3), (1000, 6)]
   \<and> spec_time_series float64_sum float64_add [(1000, 1), (500, 3), (1000, 2)]
     = [(500, 3), (1000, 6)]"
proof -
  let ?f = "DataFrame [mk_tx ''0xA'' ''0xB'' ''1000000000000000000'' 1000,
                 mk_tx ''0xC'' ''0xA'' ''3000000000000000000'' 500,
                 mk_tx ''0xB'' ''0xC'' ''2000000000000000000'' 1000]"
  let ?xs = "[1000000000000000000, 3000000000000000000, 2000000000000000000 :: real]"
  have 1: "''timeStamp'' \<in> set (columns ?f)" and 2: "''value'' \<in> set (columns ?f)"
    by (simp_all add: DataFrame_def)
  have 3: "\<forall>r \<in> set (rows ?f). - 9223372036 \<le> timeStamp r \<and> timeStamp r \<le> 9223372036"
    by (simp add: DataFrame_def mk_tx_def)
  have 4: "map dec_float (map tx_value (rows ?f)) = map Some ?xs"
    by (simp add: ts_simps)
  have z: "zip (map timeStamp (rows ?f)) (map (\<lambda>x. x / 10 ^ 18) ?xs)
           = [(1000, 1), (500, 3), (1000, 2)]"
    by (simp add: DataFrame_def mk_tx_def)
  have e: "time_series dec_float float64_sum float64_add ?f = Inr [(500, 3), (1000, 6)]"
    by (simp add: ts_simps float64_small)
  from time_series_refines_spec[OF 1 2 3 4]
  have "time_series dec_float float64_sum float64_add ?f
        = Inr (spec_time_series float64_sum float64_add [(1000, 1), (500, 3), (1000, 2)])"
    unfolding z .
  with e show ?thesis by simp
qed

text \<open>The run C4 describes, reached when the token request fails and the filter is off.\<close>

lemma token_fetch_failed_ok:
  "update_graphs dec_float dec_int float64_sum float64_add origin_layout 1 ''0xA'' []
       (Response 200 (Some (Result_records [mk_tx ''0xA'' ''0xB'' ''1000000000000000000'' 1000])))
       (Response 404 None)
     = Inr [Graph (draw_plotly_graph origin_layout
                     [(''0xA'', [(''0xB'', 1)]), (''0xB'', [(''0xA'', 1)])] False (Some ''0xA'')),
            Div ''No data available for ERC20 transactions'',
            Graph_series [(1000, 1)]]"
  by (simp add: run_simps ex_simps ts_simps float64_small)

section \<open>Monotonicity of the cumulative values\<close>

lemma cumsum_from_keys: "map fst (cumsum_from fa acc gs) = map fst gs"
  by (induction gs arbitrary: acc) auto

lemma cumsum_keys: "map fst (cumsum fa gs) = map fst gs"
  by (cases gs) (auto simp: cumsum_from_keys)

lemma cumsum_nth:
  "i < length gs \<Longrightarrow>
     cumsum fa gs ! i = (fst (gs ! i), foldl fa (snd (hd gs)) (map snd (take i (tl gs))))"
  by (simp add: cumsum_spec spec_cumulative_def)

lemma cumsum_step:
  assumes "Suc i < length gs"
  shows "snd (cumsum fa gs ! Suc i) = fa (snd (cumsum fa gs ! i)) (snd (gs ! Suc i))"
proof -
  from assms have i: "i < length (tl gs)" by simp
  then have "take (Suc i) (tl gs) = take i (tl gs) @ [tl gs ! i]"
    by (rule take_Suc_conv_app_nth)
  moreover have "tl gs ! i = gs ! Suc i" using i by (simp add: nth_tl)
  ultimately have "foldl fa (snd (hd gs)) (map snd (take (Suc i) (tl gs)))
        = fa (foldl fa (snd (hd gs)) (map snd (take i (tl gs)))) (snd (gs ! Suc i))"
    by simp
  moreover from assms have "i < length gs" by simp
  ultimately show ?thesis using assms by (simp only: cumsum_nth snd_conv)
qed

lemma cumsum_first: "gs \<noteq> [] \<Longrightarrow> snd (cumsum fa gs ! 0) = snd (gs ! 0)"
  by (cases gs) auto

lemma cumsum_float64:
  assumes "\<forall>g \<in> set gs. float64_round (snd g) = snd g" and "i < length gs"
  shows "float64_round (snd (cumsum float64_add gs ! i)) = snd (cumsum float64_add gs ! i)"
proof (cases i)
  case 0
  with assms(2) have "gs \<noteq> []" by auto
  then have "snd (cumsum float64_add gs ! 0) = snd (gs ! 0)" by (rule cumsum_first)
  moreover have "gs ! 0 \<in> set gs" using \<open>gs \<noteq> []\<close> by simp
  ultimately show ?thesis using assms(1) 0 by simp
next
  case (Suc j)
  with assms(2) have "Suc j < length gs" by simp
  from cumsum_step[OF this, of float64_add] show ?thesis
    unfolding Suc by (simp add: float64_add_def float64_round_idem)
qed

lemma group_sums_sorted: "group_sums pf fs f = Inr gs \<Longrightarrow> sorted_wrt (<) (map fst gs)"
  by (auto simp: group_sums_def groupby_sum_def groupby_def groups_from_sorted comp_def
      case_prod_unfold split: if_splits sum.splits)

lemma group_sums_float64:
  assumes "group_sums pf fs f = Inr gs" and "\<forall>vs. float64_round (fs vs) = fs vs"
  shows "\<forall>g \<in> set gs. float64_round (snd g) = snd g"
proof -
  from assms(1) obtain pts where "gs = groupby_sum fs pts"
    by (auto simp: group_sums_def split: if_splits sum.splits)
  then show ?thesis using assms(2) by (auto simp: groupby_sum_def)
qed

text \<open>
  C9, as amended. Let \<open>gs\<close> be the sums per timestamp of a native list, float64
  numbers as the float sum returns them, and let the running sum add in float64. The time
  series is the running sum of \<open>gs\<close>, in strictly ascending order of time. When
  every group sum is at least zero, the cumulative values never decrease. At a point
  whose group sum is negative the cumulative value is not above the one before it: it is
  lower, or equal when the rounded addition absorbs the negative sum.
\<close>

theorem cumulative_monotone_float64:
  assumes "group_sums pf fs f = Inr gs" and "\<forall>vs. float64_round (fs vs) = fs vs"
  shows "time_series pf fs float64_add f = Inr (cumsum float64_add gs)
       \<and> sorted_wrt (<) (map fst (cumsum float64_add gs))
       \<and> ((\<forall>g \<in> set gs. 0 \<le> snd g) \<longrightarrow> sorted (map snd (cumsum float64_add gs)))
       \<and> (\<forall>i. Suc i < length gs \<and> snd (gs ! Suc i) < 0
              \<longrightarrow> snd (cumsum float64_add gs ! Suc i) \<le> snd (cumsum float64_add gs ! i))"
proof -
  let ?c = "cumsum float64_add gs"
  have fl: "\<forall>g \<in> set gs. float64_round (snd g) = snd g"
    using assms by (rule group_sums_float64)
  have len: "length ?c = length gs" using cumsum_keys[of float64_add gs] by (metis length_map)
  have 1: "time_series pf fs float64_add f = Inr ?c" using assms(1) by (simp add: time_series_def)
  have 2: "sorted_wrt (<) (map fst ?c)"
    using group_sums_sorted[OF assms(1)] by (simp only: cumsum_keys)
  have 3: "sorted (map snd ?c)" if nn: "\<forall>g \<in> set gs. 0 \<le> snd g"
  proof -
    have "map snd ?c ! i \<le> map snd ?c ! Suc i" if "Suc i < length (map snd ?c)" for i
    proof -
      from that len have i: "Suc i < length gs" by simp
      then have "gs ! Suc i \<in> set gs" by simp
      with nn have b: "0 \<le> snd (gs ! Suc i)" by blast
      from i have "i < length gs" by simp
      from cumsum_float64[OF fl this] have a: "float64_round (snd (?c ! i)) = snd (?c ! i)" .
      from float64_add_up[OF a b] cumsum_step[OF i, of float64_add]
      have "snd (?c ! i) \<le> snd (?c ! Suc i)" by simp
      then show ?thesis using i len by simp
    qed
    then show ?thesis by (simp only: sorted_iff_nth_Suc) blast
  qed
  have 4: "snd (?c ! Suc i) \<le> snd (?c ! i)" if "Suc i < length gs" "snd (gs ! Suc i) < 0" for i
  proof -
    from that(1) have "i < length gs" by simp
    from cumsum_float64[OF fl this] have a: "float64_round (snd (?c ! i)) = snd (?c ! i)" .
    from that(2) have b: "snd (gs ! Suc i) \<le> 0" by simp
    from float64_add_down[OF a b] cumsum_step[OF that(1), of float64_add]
    show ?thesis by simp
  qed
  show ?thesis using 1 2 3 4 by blast
qed

text \<open>
  At one unit followed by two units the series rises from 1 to 3; at one unit followed
  by minus two units it falls from 1 to -1.
\<close>

theorem cumulative_monotone_float64_witness:
  "time_series dec_float float64_sum float64_add
     (DataFrame [mk_tx ''0xA'' ''0xB'' ''1000000000000000000'' 1000,
                 mk_tx ''0xB'' ''0xA'' ''2000000000000000000'' 2000])
   = Inr (cumsum float64_add [(1000, 1), (2000, 2)])
   \<and> sorted (map snd (cumsum float64_add [(1000, 1), (2000, 2)]))
   \<and> cumsum float64_add [(1000, 1), (2000, 2)] = [(1000, 1), (2000, 3)]
   \<and> time_series dec_float float64_sum float64_add
     (DataFrame [mk_tx ''0xA'' ''0xB'' ''1000000000000000000'' 1000,
                 mk_tx ''0xB'' ''0xA'' ''-2000000000000000000'' 2000])
   = Inr (cumsum float64_add [(1000, 1), (2000, - 2)])
   \<and> snd (cumsum float64_add [(1000, 1), (2000, - 2)] ! Suc 0)
       \<le> snd (cumsum float64_add [(1000, 1), (2000, - 2)] ! 0)
   \<and> cumsum float64_add [(1000, 1), (2000, - 2)] = [(1000, 1), (2000, - 1)]"
proof -
  let ?f = "DataFrame [mk_tx ''0xA'' ''0xB'' ''1000000000000000000'' 1000,
                 mk_tx ''0xB'' ''0xA'' ''2000000000000000000'' 2000]"
  let ?g = "DataFrame [mk_tx ''0xA'' ''0xB'' ''1000000000000000000'' 1000,
                 mk_tx ''0xB'' ''0xA'' ''-2000000000000000000'' 2000]"
  let ?gs = "[(1000, 1), (2000, 2)] :: (int \<times> real) list"
  let ?hs = "[(1000, 1), (2000, - 2)] :: (int \<times> real) list"
  have f: "group_sums dec_float float64_sum ?f = Inr ?gs" by (simp add: ts_simps float64_small)
  have g: "group_sums dec_float float64_sum ?g = Inr ?hs" by (simp add: ts_simps float64_small)
  have fl: "\<forall>vs. float64_round (float64_sum vs) = float64_sum vs"
    by (simp add: float64_sum_is_float)
  have pos: "\<forall>g \<in> set ?gs. 0 \<le> snd g" by simp
  have neg: "Suc 0 < length ?hs \<and> snd (?hs ! Suc 0) < 0" by simp
  from cumulative_monotone_float64[OF f fl] pos
  have a: "time_series dec_float float64_sum float64_add ?f = Inr (cumsum float64_add ?gs)
           \<and> sorted (map snd (cumsum float64_add ?gs))"
    by blast
  from cumulative_monotone_float64[OF g fl] neg
  have b: "time_series dec_float float64_sum float64_add ?g = Inr (cumsum float64_add ?hs)
           \<and> snd (cumsum float64_add ?hs ! Suc 0) \<le> snd (cumsum float64_add ?hs ! 0)"
    by blast
  have c: "cumsum float64_add ?gs = [(1000, 1), (2000, 3)]"
    "cumsum float64_add ?hs = [(1000, 1), (2000, - 1)]"
    by (simp_all add: float64_add_def float64_small)
  from a b c show ?thesis by blast
qed

text \<open>
  C9 as stated fails: at one ether followed by minus one wei the second group sum is
  negative, and the cumulative value stays at 1, since the float64 numbers next to 1 are
  further away than one wei.
\<close>

theorem negative_sum_absorbed_counterexample:
  "group_sums dec_float float64_sum
     (DataFrame [mk_tx ''0xA'' ''0xB'' ''1000000000000000000'' 1000,
                 mk_tx ''0xB'' ''0xA'' ''-1'' 2000])
   = Inr [(1000, 1), (2000, float64_round (- (1 / 10 ^ 18)))]
   \<and> float64_round (- (1 / 10 ^ 18)) < 0
   \<and> time_series dec_float float64_sum float64_add
     (DataFrame [mk_tx ''0xA'' ''0xB'' ''1000000000000000000'' 1000,
                 mk_tx ''0xB'' ''0xA'' ''-1'' 2000])
   = Inr [(1000, 1), (2000, 1)]"
proof -
  let ?f = "DataFrame [mk_tx ''0xA'' ''0xB'' ''1000000000000000000'' 1000,
                 mk_tx ''0xB'' ''0xA'' ''-1'' 2000]"
  let ?w = "float64_round (- (1 / 10 ^ 18))"
  have zip: "group_sums dec_float float64_sum ?f
             = Inr [(1000, float64_sum [1]), (2000, float64_sum [- (1 / 10 ^ 18)])]"
    by (simp add: time_series_def group_sums_def groupby_sum_def groupby_def to_datetime_def
        DataFrame_def mk_tx_def dec_float_def dec_int_def dec_nat_def digit_val_def)
  have s1: "float64_sum [1] = 1" by (simp add: float64_sum_def float64_add_def float64_round_1)
  have s2: "float64_sum [- (1 / 10 ^ 18)] = ?w" by (simp add: float64_sum_def float64_add_def)
  have g: "group_sums dec_float float64_sum ?f = Inr [(1000, 1), (2000, ?w)]"
    unfolding zip s1 s2 ..
  have t: "time_series dec_float float64_sum float64_add ?f = Inr [(1000, 1), (2000, 1)]"
    unfolding time_series_def g using wei_absorbed by simp
  from g wei_negative t show ?thesis by blast
qed

section \<open>A malformed \<^verbatim>\<open>tokenDecimal\<close>\<close>

lemma astype_int_fails:
  "r \<in> set rs \<Longrightarrow> cell_int pn (tokenDecimal r) = Inl e \<Longrightarrow> \<exists>e'. astype_int pn rs = Inl e'"
proof (induction rs)
  case Nil
  then show ?case by simp
next
  case (Cons x rs)
  show ?case
  proof (cases "r = x")
    case True
    with Cons.prems show ?thesis by simp
  next
    case False
    with Cons obtain e' where "astype_int pn rs = Inl e'" by auto
    then show ?thesis by (simp split: sum.splits)
  qed
qed

lemma convert_tokenDecimal_fails:
  assumes "r \<in> set rs" and "cell_int pn (tokenDecimal r) = Inl e"
  shows "\<exists>e'. convert_tokenDecimal pn (DataFrame rs) = Inl e'"
proof -
  from assms(1) have ne: "rs \<noteq> []" by auto
  then have r: "rows (DataFrame rs) = rs" by (simp add: DataFrame_def)
  from astype_int_fails[OF assms] obtain e' where "astype_int pn rs = Inl e'" by blast
  then show ?thesis by (simp add: convert_tokenDecimal_def r)
qed

text \<open>
  Whatever the native request returned, a token list with one record whose
  \<^verbatim>\<open>tokenDecimal\<close> is absent, or a string \<^verbatim>\<open>int\<close> rejects, leaves both frames
  empty.
\<close>

lemma malformed_token_empties_both:
  assumes "r \<in> set rs"
    and "tokenDecimal r = NaN \<or> (\<exists>s. tokenDecimal r = Str s \<and> pn s = None)"
  shows "fetch_transactions pn eth_response (Response 200 (Some (Result_records rs)))
         = (empty_frame, empty_frame)"
proof -
  from assms(2) have "cell_int pn (tokenDecimal r) = Inl ValueError"
    by (auto simp: cell_int_def)
  from convert_tokenDecimal_fails[OF assms(1) this]
  obtain e' where "convert_tokenDecimal pn (DataFrame rs) = Inl e'" by blast
  then show ?thesis
    by (simp add: fetch_transactions_def load_result_def split: sum.splits response.splits)
qed

text \<open>
  C7. The claim is that a token record whose \<^verbatim>\<open>tokenDecimal\<close> is absent or not
  numeric does not crash the pipeline and leaves the native dataset as fetched. At a
  token record with the decimals \<open>six\<close>, line 100 raises and the handler of lines
  105 to 108 empties both frames, although the native frame was fetched before: beside a
  well-formed token record, or a failed token request (line 103), the same native frame
  is kept. The callback then returns the two placeholders of line 50, and with the
  zero-value filter on line 46 raises \<^verbatim>\<open>KeyError\<close>.
\<close>

theorem malformed_token_discards_native:
  "fetch_transactions dec_int
     (Response 200 (Some (Result_records [mk_tx ''0xA'' ''0xB'' ''1000000000000000000'' 1000])))
     (Response 200 (Some (Result_records [mk_token_tx ''0xA'' ''0xC'' ''5000000'' 2000 ''six''])))
   = (empty_frame, empty_frame)
   \<and> fst (fetch_transactions dec_int
     (Response 200 (Some (Result_records [mk_tx ''0xA'' ''0xB'' ''1000000000000000000'' 1000])))
     (Response 200 (Some (Result_records [mk_token_tx ''0xA'' ''0xC'' ''5000000'' 2000 ''6'']))))
   = DataFrame [mk_tx ''0xA'' ''0xB'' ''1000000000000000000'' 1000]
   \<and> fst (fetch_transactions dec_int
     (Response 200 (Some (Result_records [mk_tx ''0xA'' ''0xB'' ''1000000000000000000'' 1000])))
     (Response 404 None))
   = DataFrame [mk_tx ''0xA'' ''0xB'' ''1000000000000000000'' 1000]
   \<and> DataFrame [mk_tx ''0xA'' ''0xB'' ''1000000000000000000'' 1000] \<noteq> empty_frame
   \<and> update_graphs dec_float dec_int float64_sum float64_add origin_layout 1 ''0xA'' []
     (Response 200 (Some (Result_records [mk_tx ''0xA'' ''0xB'' ''1000000000000000000'' 1000])))
     (Response 200 (Some (Result_records [mk_token_tx ''0xA'' ''0xC'' ''5000000'' 2000 ''six''])))
   = Inr [Div ''No data available for Ethereum transactions'',
          Div ''No data available for ERC20 transactions'']
   \<and> update_graphs dec_float dec_int float64_sum float64_add origin_layout 1 ''0xA'' [''hide'']
     (Response 200 (Some (Result_records [mk_tx ''0xA'' ''0xB'' ''1000000000000000000'' 1000])))
     (Response 200 (Some (Result_records [mk_token_tx ''0xA'' ''0xC'' ''5000000'' 2000 ''six''])))
   = Inl KeyError"
  by (simp add: run_simps cell_int_def mk_tx_def mk_token_tx_def
      dec_int_def dec_nat_def digit_val_def)

section \<open>A list without a positive value\<close>

lemma add_rows_nonpositive:
  "\<forall>r \<in> set rs. \<exists>v. value_major pf pn cols token r = Inr v \<and> v \<le> 0
     \<Longrightarrow> add_rows pf pn cols token G rs = Inr G"
  by (induction rs) auto

lemma draw_empty_graph: "draw_plotly_graph lay [] token c = empty_figure"
  by (simp add: draw_plotly_graph_def empty_figure_def edges_def nodes_def)

lemma graph_div_placeholder:
  "graph_div pf pn lay f token address no_data = Inr (Div msg) \<Longrightarrow> df_empty f"
  by (auto simp: graph_div_def split: if_splits sum.splits)

lemma update_graphs_unfold:
  assumes "0 < n_clicks"
    and "shown_frames hide_zero (fetch_transactions pn eth erc) = Inr (t, t20)"
    and "\<not> (df_empty t \<and> df_empty t20)"
    and "graph_div pf pn lay t False address ''No data available for Ethereum transactions''
         = Inr d"
    and "graph_div pf pn lay t20 True address ''No data available for ERC20 transactions''
         = Inr d20"
    and "time_series pf fs fa t = Inr s"
  shows "update_graphs pf pn fs fa lay n_clicks address hide_zero eth erc
         = Inr [d, d20, Graph_series s]"
proof -
  obtain a b where p: "fetch_transactions pn eth erc = (a, b)" by (cases "fetch_transactions pn eth erc")
  have "(if ''hide'' \<in> set hide_zero then
           (case hide_zero_rows a of
              Inl e \<Rightarrow> Inl e
            | Inr t \<Rightarrow> (case hide_zero_rows b of
                          Inl e \<Rightarrow> Inl e
                        | Inr t20 \<Rightarrow> Inr (t, t20)))
         else Inr (a, b)) = Inr (t, t20)"
    using assms(2) by (simp add: shown_frames_def p)
  then show ?thesis
    unfolding update_graphs_def p using assms(1,3,4,5,6) by auto
qed

text \<open>
  C8, as amended. For a non-empty list, native or token, whose converted values are all
  at most zero: the graph builder returns the empty graph, the figure drawn from it has no
  edge, no annotation and no node, whatever the layout routine returns, and the container
  of the category is that empty chart, not a placeholder; a placeholder is returned only
  for an empty frame. In the callback, for every pair of responses and every setting of
  the zero-value filter that leave such a list, the category's component is the empty
  chart whenever the other category's container and the time series raise nothing.
\<close>

theorem nonpositive_list_gives_empty_chart:
  assumes "\<not> df_empty f"
    and "\<forall>r \<in> set (rows f). \<exists>v. value_major pf pn (columns f) token r = Inr v \<and> v \<le> 0"
  shows "create_network_graph pf pn f token = Inr []
       \<and> draw_plotly_graph lay [] token (Some address) = empty_figure
       \<and> graph_div pf pn lay f token address no_data = Inr (Graph empty_figure)
       \<and> (\<forall>f' msg. graph_div pf pn lay f' token address no_data = Inr (Div msg)
             \<longrightarrow> df_empty f')
       \<and> (\<forall>f20 d20 s. 0 < n_clicks \<and> \<not> token
             \<and> shown_frames hide_zero (fetch_transactions pn eth erc) = Inr (f, f20)
             \<and> graph_div pf pn lay f20 True address
                 ''No data available for ERC20 transactions'' = Inr d20
             \<and> time_series pf fs fa f = Inr s
           \<longrightarrow> update_graphs pf pn fs fa lay n_clicks address hide_zero eth erc
               = Inr [Graph empty_figure, d20, Graph_series s])
       \<and> (\<forall>f0 d0 s. 0 < n_clicks \<and> token
             \<and> shown_frames hide_zero (fetch_transactions pn eth erc) = Inr (f0, f)
             \<and> graph_div pf pn lay f0 False address
                 ''No data available for Ethereum transactions'' = Inr d0
             \<and> time_series pf fs fa f0 = Inr s
           \<longrightarrow> update_graphs pf pn fs fa lay n_clicks address hide_zero eth erc
               = Inr [d0, Graph empty_figure, Graph_series s])"
proof -
  have 1: "create_network_graph pf pn f token = Inr []"
    unfolding create_network_graph_def using assms(2) by (rule add_rows_nonpositive)
  have 2: "draw_plotly_graph lay [] token (Some address) = empty_figure"
    by (rule draw_empty_graph)
  have 3: "graph_div pf pn lay f token address msg = Inr (Graph empty_figure)" for msg
    using assms(1) 1 2 by (simp add: graph_div_def)
  have 4: "df_empty f'"
    if "graph_div pf pn lay f' token address no_data = Inr (Div msg)" for f' msg
    using that by (rule graph_div_placeholder)
  have 5: "update_graphs pf pn fs fa lay n_clicks address hide_zero eth erc
           = Inr [Graph empty_figure, d20, Graph_series s]"
    if "0 < n_clicks" "\<not> token"
      "shown_frames hide_zero (fetch_transactions pn eth erc) = Inr (f, f20)"
      "graph_div pf pn lay f20 True address ''No data available for ERC20 transactions''
         = Inr d20"
      "time_series pf fs fa f = Inr s" for f20 d20 s
  proof -
    from that(2) 3 have "graph_div pf pn lay f False address
        ''No data available for Ethereum transactions'' = Inr (Graph empty_figure)" by simp
    from update_graphs_unfold[OF that(1) that(3) _ this that(4) that(5)] assms(1)
    show ?thesis by simp
  qed
  have 6: "update_graphs pf pn fs fa lay n_clicks address hide_zero eth erc
           = Inr [d0, Graph empty_figure, Graph_series s]"
    if "0 < n_clicks" "token"
      "shown_frames hide_zero (fetch_transactions pn eth erc) = Inr (f0, f)"
      "graph_div pf pn lay f0 False address ''No data available for Ethereum transactions''
         = Inr d0"
      "time_series pf fs fa f0 = Inr s" for f0 d0 s
  proof -
    from that(2) 3 have "graph_div pf pn lay f True address
        ''No data available for ERC20 transactions'' = Inr (Graph empty_figure)" by simp
    from update_graphs_unfold[OF that(1) that(3) _ that(4) this that(5)] assms(1)
    show ?thesis by simp
  qed
  show ?thesis using 1 2 3 4 5 6 by blast
qed

text \<open>
  At a native row and a token row of value zero, both requests succeeding: both charts
  are empty charts.
\<close>

theorem nonpositive_list_gives_empty_chart_witness:
  "create_network_graph dec_float dec_int
     (snd (fetch_transactions dec_int
        (Response 200 (Some (Result_records [mk_tx ''0xA'' ''0xB'' ''0'' 1000])))
        (Response 200 (Some (Result_records [mk_token_tx ''0xA'' ''0xC'' ''0'' 2000 ''6''])))))
     True
   = Inr []
   \<and> update_graphs dec_float dec_int float64_sum float64_add origin_layout 1 ''0xA'' []
       (Response 200 (Some (Result_records [mk_tx ''0xA'' ''0xB'' ''0'' 1000])))
       (Response 200 (Some (Result_records [mk_token_tx ''0xA'' ''0xC'' ''0'' 2000 ''6''])))
     = Inr [Graph empty_figure, Graph empty_figure, Graph_series [(1000, 0)]]"
proof -
  let ?eth = "Response 200 (Some (Result_records [mk_tx ''0xA'' ''0xB'' ''0'' 1000]))"
  let ?erc = "Response 200 (Some (Result_records [mk_token_tx ''0xA'' ''0xC'' ''0'' 2000 ''6'']))"
  let ?native = "DataFrame [mk_tx ''0xA'' ''0xB'' ''0'' 1000]"
  let ?tok = "snd (fetch_transactions dec_int ?eth ?erc)"
  have fetch': "fetch_transactions dec_int ?eth ?erc
      = (?native, \<lparr>columns = [''from'', ''to'', ''value'', ''timeStamp'', ''tokenDecimal''],
                 rows = [\<lparr>tx_from = ''0xA'', tx_to = ''0xC'', tx_value = ''0'',
                          timeStamp = 2000, tokenDecimal = IntV 6\<rparr>]\<rparr>)"
    by (simp add: run_simps cell_int_def mk_tx_def mk_token_tx_def
        dec_int_def dec_nat_def digit_val_def)
  have f: "?tok = \<lparr>columns = [''from'', ''to'', ''value'', ''timeStamp'', ''tokenDecimal''],
                 rows = [\<lparr>tx_from = ''0xA'', tx_to = ''0xC'', tx_value = ''0'',
                          timeStamp = 2000, tokenDecimal = IntV 6\<rparr>]\<rparr>"
    by (simp only: fetch' snd_conv)
  have 1: "\<not> df_empty ?tok" unfolding f by (simp add: df_empty_def)
  have 2: "\<forall>r \<in> set (rows ?tok). \<exists>v. value_major dec_float dec_int (columns ?tok) True r = Inr v
             \<and> v \<le> 0"
    unfolding f
    by (simp add: value_major_def cell_int_def dec_float_def dec_int_def dec_nat_def
        digit_val_def)
  have sh: "shown_frames [] (fetch_transactions dec_int ?eth ?erc) = Inr (?native, ?tok)"
    by (simp add: fetch' shown_frames_def)
  have d0: "graph_div dec_float dec_int origin_layout ?native False ''0xA''
              ''No data available for Ethereum transactions'' = Inr (Graph empty_figure)"
    by (simp add: graph_div_def df_empty_def ex_simps draw_empty_graph)
  have s: "time_series dec_float float64_sum float64_add ?native = Inr [(1000, 0)]"
    by (simp add: ts_simps float64_small)
  note r = nonpositive_list_gives_empty_chart[OF 1 2,
      of origin_layout "''0xA''" "''No data available for ERC20 transactions''"
        1 "[]" ?eth ?erc float64_sum float64_add]
  from r have a: "create_network_graph dec_float dec_int ?tok True = Inr []" by (rule conjunct1)
  note pipeline =
    r[THEN conjunct2, THEN conjunct2, THEN conjunct2, THEN conjunct2, THEN conjunct2,
      rule_format]
  have prem: "0 < (1::int) \<and> True
      \<and> shown_frames [] (fetch_transactions dec_int ?eth ?erc) = Inr (?native, ?tok)
      \<and> graph_div dec_float dec_int origin_layout ?native False ''0xA''
            ''No data available for Ethereum transactions'' = Inr (Graph empty_figure)
      \<and> time_series dec_float float64_sum float64_add ?native = Inr [(1000, 0)]"
    using sh d0 s by (intro conjI) simp_all
  have b: "update_graphs dec_float dec_int float64_sum float64_add origin_layout 1 ''0xA'' []
             ?eth ?erc
           = Inr [Graph empty_figure, Graph empty_figure, Graph_series [(1000, 0)]]"
    using prem by (rule pipeline)
  from a b show ?thesis by (rule conjI)
qed

text \<open>
  C8 as stated fails: at one row of value zero the first component is a chart (an empty
  one), not the placeholder text.
\<close>

theorem zero_values_counterexample:
  "update_graphs dec_float dec_int float64_sum float64_add origin_layout 1 ''0xA'' []
       (Response 200 (Some (Result_records [mk_tx ''0xA'' ''0xB'' ''0'' 1000])))
       (Response 404 None)
     = Inr [Graph empty_figure,
            Div ''No data available for ERC20 transactions'',
            Graph_series [(1000, 0)]]"
  by (simp add: run_simps ex_simps ts_simps float64_small draw_plotly_graph_def
      empty_figure_def)

section \<open>Self-loops\<close>

lemma add_rows_keeps_edge:
  "add_rows pf pn cols token G ts = Inr G' \<Longrightarrow> edge_weight G a b \<noteq> None
     \<Longrightarrow> edge_weight G' a b \<noteq> None"
proof (induction ts arbitrary: G)
  case Nil
  then show ?case by simp
next
  case (Cons t ts)
  show ?case
  proof (cases "value_major pf pn cols token t")
    case (Inl e)
    with Cons.prems show ?thesis by simp
  next
    case (Inr v)
    show ?thesis
    proof (cases "0 < v")
      case False
      with Inr Cons show ?thesis by simp
    next
      case True
      with Inr Cons.prems
      have run: "add_rows pf pn cols token (add_edge (tx_from t) (tx_to t) v G) ts = Inr G'"
        by (simp split: if_splits)
      have "edge_weight (add_edge (tx_from t) (tx_to t) v G) a b \<noteq> None"
        using Cons.prems(2) by (simp add: add_edge_weight)
      with Cons.IH[OF run] show ?thesis .
    qed
  qed
qed

lemma only_self_loop_row:
  assumes wf: "wf_graph G" and m: "map_of G a = Some d"
    and only: "\<forall>(u, v, x) \<in> set (edges G). u = a \<or> v = a \<longrightarrow> u = a \<and> v = a"
  shows "\<exists>w. d = [(a, w)]"
proof -
  from wf m have dd: "distinct (map fst d)" and ne: "d \<noteq> []" by (auto simp: wf_graph_def)
  have keys: "k = a" if "(k, x) \<in> set d" for k x
  proof -
    from dd that m have "edge_weight G a k = Some x" by (simp add: edge_weight_def)
    from edges_unique[OF wf this]
    obtain u v where f: "filter (same_pair a k) (edges G) = [(u, v, x)]"
      and uv: "u = a \<and> v = k \<or> u = k \<and> v = a" by blast
    have "(u, v, x) \<in> set (filter (same_pair a k) (edges G))" by (simp add: f)
    then have "(u, v, x) \<in> set (edges G)" by simp
    with only uv show ?thesis by blast
  qed
  obtain k x d' where d: "d = (k, x) # d'" using ne by (cases d) auto
  have "k = a" using keys[of k x] d by simp
  have "d' = []"
  proof (cases d')
    case Nil
    then show ?thesis .
  next
    case (Cons p ps)
    obtain k' x' where p: "p = (k', x')" by (cases p)
    with Cons d keys[of k' x'] have "k' = a" by simp
    with dd d Cons p \<open>k = a\<close> show ?thesis by simp
  qed
  with d \<open>k = a\<close> show ?thesis by simp
qed

text \<open>
  C10, as amended. A row from an address to itself with a positive converted value leaves
  a self-loop in the graph: the edge list has exactly one entry from the node to itself.
  When every edge at the node is that self-loop, the degree of the node is 2, so a node
  other than the focal one gets \<open>min (base_size + ln 3) max_size\<close>, which differs
  from \<open>min (base_size + ln 2) max_size\<close>; the focal node gets
  \<open>center_size\<close>.
\<close>

theorem self_loop_counts_twice:
  assumes "create_network_graph pf pn f token = Inr G"
    and "rows f = pre @ t # post"
    and "tx_from t = a" and "tx_to t = a"
    and "value_major pf pn (columns f) token t = Inr w"
    and "0 < w"
  shows "(\<exists>w'. filter (same_pair a a) (edges G) = [(a, a, w')])
       \<and> (\<forall>d. map_of G a = Some d
               \<and> (\<forall>(u, v, x) \<in> set (edges G). u = a \<or> v = a \<longrightarrow> u = a \<and> v = a)
             \<longrightarrow> degree_of a d = 2
                 \<and> (c \<noteq> Some a \<longrightarrow> node_size c a d = min (base_size + ln 3) max_size
                                  \<and> node_size c a d \<noteq> min (base_size + ln 2) max_size)
                 \<and> (c = Some a \<longrightarrow> node_size c a d = center_size))"
proof -
  let ?run = "add_rows pf pn (columns f) token"
  from assms(1,2) have "?run [] (pre @ t # post) = Inr G"
    by (simp add: create_network_graph_def)
  then obtain G1 where G1: "?run [] pre = Inr G1" and rest: "?run G1 (t # post) = Inr G"
    by (auto simp: add_rows_append split: sum.splits)
  let ?G2 = "add_edge a a w G1"
  from rest assms(3-6) have post: "?run ?G2 post = Inr G"
    by (simp split: if_splits)
  have "edge_weight ?G2 a a \<noteq> None" by (simp add: add_edge_weight)
  from add_rows_keeps_edge[OF post this]
  obtain w' where w': "edge_weight G a a = Some w'" by blast
  have wf: "wf_graph G"
    using assms(1) add_rows_wf wf_graph_Nil unfolding create_network_graph_def by blast
  from edges_unique[OF wf w'] have 1: "\<exists>w'. filter (same_pair a a) (edges G) = [(a, a, w')]"
    by blast
  have 2: "degree_of a d = 2
           \<and> (c \<noteq> Some a \<longrightarrow> node_size c a d = min (base_size + ln 3) max_size
                            \<and> node_size c a d \<noteq> min (base_size + ln 2) max_size)
           \<and> (c = Some a \<longrightarrow> node_size c a d = center_size)"
    if "map_of G a = Some d"
      "\<forall>(u, v, x) \<in> set (edges G). u = a \<or> v = a \<longrightarrow> u = a \<and> v = a" for d
  proof -
    from only_self_loop_row[OF wf that] obtain x where d: "d = [(a, x)]" by blast
    then have deg: "degree_of a d = 2" by (simp add: degree_of_def)
    have "min (10 + ln (3::real)) 25 \<noteq> min (10 + ln 2) 25"
      using ln_3_bounds by simp
    with deg show ?thesis
      by (simp add: node_size_def base_size_def max_size_def)
  qed
  show ?thesis using 1 2 by blast
qed

text \<open>
  At a single row of one unit from \<open>0xB\<close> to itself, drawn for the focal address
  \<open>0xF\<close>.
\<close>

theorem self_loop_counts_twice_witness:
  "create_network_graph dec_float dec_int
     (DataFrame [mk_tx ''0xB'' ''0xB'' ''1000000000000000000'' 1000]) False
     = Inr [(''0xB'', [(''0xB'', 1)])]
   \<and> (\<exists>w'. filter (same_pair ''0xB'' ''0xB'') (edges [(''0xB'', [(''0xB'', 1)])])
              = [(''0xB'', ''0xB'', w')])
   \<and> degree_of ''0xB'' [(''0xB'', 1)] = 2
   \<and> node_size (Some ''0xF'') ''0xB'' [(''0xB'', 1)] = min (base_size + ln 3) max_size"
proof -
  let ?t = "mk_tx ''0xB'' ''0xB'' ''1000000000000000000'' 1000"
  let ?f = "DataFrame [?t]"
  let ?G = "[(''0xB'', [(''0xB'', 1::real)])]"
  have 1: "create_network_graph dec_float dec_int ?f False = Inr ?G"
    by (simp add: ex_simps)
  have 2: "rows ?f = [] @ ?t # []" by (simp add: DataFrame_def)
  have 3: "tx_from ?t = ''0xB''" "tx_to ?t = ''0xB''" by (simp_all add: mk_tx_def)
  have 4: "value_major dec_float dec_int (columns ?f) False ?t = Inr 1"
    by (simp add: ex_simps)
  have 5: "(0::real) < 1" by simp
  have m: "map_of ?G ''0xB'' = Some [(''0xB'', 1)]" by simp
  have only: "\<forall>(u, v, x) \<in> set (edges ?G). u = ''0xB'' \<or> v = ''0xB'' \<longrightarrow> u = ''0xB'' \<and> v = ''0xB''"
    by (simp add: edges_def)
  have ne: "Some ''0xF'' \<noteq> Some ''0xB''" by simp
  note sl = self_loop_counts_twice[OF 1 2 3 4 5, of "Some ''0xF''"]
  from sl have a: "\<exists>w'. filter (same_pair ''0xB'' ''0xB'') (edges ?G) = [(''0xB'', ''0xB'', w')]"
    by (rule conjunct1)
  from sl m only ne
  have b: "degree_of ''0xB'' [(''0xB'', 1::real)] = 2
           \<and> node_size (Some ''0xF'') ''0xB'' [(''0xB'', 1)] = min (base_size + ln 3) max_size"
    by blast
  from 1 a b show ?thesis by blast
qed

text \<open>
  C10 as stated fails: the callback draws every graph with the queried address as focal
  node, and a self-loop of that address has degree 2 and size 15, not
  \<open>min (base_size + ln 3) max_size\<close>.
\<close>

theorem focal_self_loop_counterexample:
  "update_graphs dec_float dec_int float64_sum float64_add origin_layout 1 ''0xA'' []
       (Response 200 (Some (Result_records [mk_tx ''0xA'' ''0xA'' ''1000000000000000000'' 1000])))
       (Response 404 None)
     = Inr [Graph \<lparr>edge_x = [Some 0, Some 0, None], edge_y = [Some 0, Some 0, None],
                    edge_annotations =
                      [\<lparr>ann_x = 0, ann_y = 0, ann_weight = 1, ann_unit = ''ETH''\<rparr>],
                    node_x = [0], node_y = [0], node_text = [''0xA''],
                    node_sizes = [15]\<rparr>,
            Div ''No data available for ERC20 transactions'',
            Graph_series [(1000, 1)]]
   \<and> degree_of ''0xA'' [(''0xA'', 1)] = 2
   \<and> min (base_size + ln 3) max_size \<noteq> 15"
proof -
  have "update_graphs dec_float dec_int float64_sum float64_add origin_layout 1 ''0xA'' []
       (Response 200 (Some (Result_records [mk_tx ''0xA'' ''0xA'' ''1000000000000000000'' 1000])))
       (Response 404 None)
     = Inr [Graph \<lparr>edge_x = [Some 0, Some 0, None], edge_y = [Some 0, Some 0, None],
                    edge_annotations =
                      [\<lparr>ann_x = 0, ann_y = 0, ann_weight = 1, ann_unit = ''ETH''\<rparr>],
                    node_x = [0], node_y = [0], node_text = [''0xA''],
                    node_sizes = [15]\<rparr>,
            Div ''No data available for ERC20 transactions'',
            Graph_series [(1000, 1)]]"
    by (simp add: run_simps ex_simps ts_simps float64_small draw_plotly_graph_def
        origin_layout_def node_size_def center_size_def)
  moreover have "degree_of ''0xA'' [(''0xA'', 1::real)] = 2" by (simp add: degree_of_def)
  moreover have "min (base_size + ln 3) max_size \<noteq> (15::real)"
  proof -
    have l: "ln (3::real) < 3" by (rule ln_less_self) simp
    then have "10 + ln (3::real) \<le> 25" by linarith
    then have "min (10 + ln (3::real)) 25 = 10 + ln 3" by (rule min_absorb1)
    moreover have "10 + ln (3::real) \<noteq> 15" using l by linarith
    ultimately have "min (10 + ln (3::real)) 25 \<noteq> 15" by metis
    then show ?thesis unfolding base_size_def max_size_def .
  qed
  ultimately show ?thesis by blast
qed

end
